theory Spec2Isabelle
  imports Main "HOL-Library.Code_Target_Numeral"
begin

section \<open>Regular expressions as the source uses them\<close>

text \<open>
  \<^verbatim>\<open>GithubUtils.js\<close> does all of its parsing with JavaScript regular expressions. They
  are embedded as abstract syntax and run by a backtracking matcher that returns every
  way a pattern can match at a position, in the order in which the JavaScript engine
  tries them (greedy repetition first, the left alternative first). The head of that list is
  the match JavaScript reports.

  Strings are \<^typ>\<open>string\<close>: the texts concerned (issue bodies, URLs, tags) are ASCII, and
  of the four line terminators that \<^verbatim>\<open>.\<close> refuses only CR and LF exist in this type.
\<close>

datatype rx =
    Eps
  | Lit char
  | Dot
  | Cls "char list"
  | Seq rx rx
  | Alt rx rx
  | Star rx
  | Grp nat rx
  | Eos

text \<open>A capture store: the most recent capture of a group comes first.\<close>

type_synonym caps = "(nat \<times> string) list"

type_synonym mstate = "string \<times> caps"

abbreviation CR :: char where "CR \<equiv> CHR 0x0D"
abbreviation LF :: char where "LF \<equiv> CHR 0x0A"

definition isLineTerminator :: "char \<Rightarrow> bool" where
  "isLineTerminator ch = (ch = LF \<or> ch = CR)"

text \<open>
  \<open>ms r (s, c)\<close>: the states reachable by matching \<open>r\<close> at the front of \<open>s\<close>, with the text
  still to be read and the captures so far. An iteration of \<open>*\<close> that consumes nothing is
  dropped, as ECMAScript's RepeatMatcher does. A group stores the text it consumed.
  \<open>Eos\<close> is \<^verbatim>\<open>$\<close> (without the \<^verbatim>\<open>m\<close> flag): the end of the text.
\<close>

function ms :: "rx \<Rightarrow> mstate \<Rightarrow> mstate list" where
  "ms Eps st = [st]"
| "ms (Lit a) (s, c) = (case s of [] \<Rightarrow> [] | x # xs \<Rightarrow> if x = a then [(xs, c)] else [])"
| "ms Dot (s, c) = (case s of [] \<Rightarrow> [] | x # xs \<Rightarrow> if isLineTerminator x then [] else [(xs, c)])"
| "ms (Cls cs) (s, c) = (case s of [] \<Rightarrow> [] | x # xs \<Rightarrow> if x \<in> set cs then [(xs, c)] else [])"
| "ms (Seq r1 r2) st = concat (map (ms r2) (ms r1 st))"
| "ms (Alt r1 r2) st = ms r1 st @ ms r2 st"
| "ms (Star r) (s, c) =
     concat (map (\<lambda>st'. if length (fst st') < length s then ms (Star r) st' else []) (ms r (s, c)))
     @ [(s, c)]"
| "ms (Grp i r) (s, c) =
     map (\<lambda>st'. (fst st', (i, take (length s - length (fst st')) s) # snd st')) (ms r (s, c))"
| "ms Eos (s, c) = (if s = [] then [(s, c)] else [])"
  by pat_completeness auto
termination
  by (relation "measures [\<lambda>(r, st). size r, \<lambda>(r, st). length (fst st)]") auto

text \<open>Derived forms: \<^verbatim>\<open>r+\<close>, \<^verbatim>\<open>r?\<close>, a literal string, a sequence.\<close>

definition Plus :: "rx \<Rightarrow> rx" where
  "Plus r = Seq r (Star r)"

definition Opt :: "rx \<Rightarrow> rx" where
  "Opt r = Alt r Eps"

fun str :: "string \<Rightarrow> rx" where
  "str [] = Eps"
| "str (x # xs) = Seq (Lit x) (str xs)"

fun seqs :: "rx list \<Rightarrow> rx" where
  "seqs [] = Eps"
| "seqs (r # rs) = Seq r (seqs rs)"

text \<open>The number of capture groups of a pattern: the length of a match array less one.\<close>

fun ngroups :: "rx \<Rightarrow> nat" where
  "ngroups (Seq r1 r2) = ngroups r1 + ngroups r2"
| "ngroups (Alt r1 r2) = ngroups r1 + ngroups r2"
| "ngroups (Star r) = ngroups r"
| "ngroups (Grp i r) = Suc (ngroups r)"
| "ngroups r = 0"

text \<open>
  A match: the matched text (element 0 of a JavaScript match array) and the groups
  (elements 1, 2, ...; \<open>None\<close> is \<^verbatim>\<open>undefined\<close>, a group that took no part in the match).
\<close>

type_synonym match = "string \<times> string option list"

definition match_length :: "match \<Rightarrow> nat" where
  "match_length m = Suc (length (snd m))"

definition group :: "match \<Rightarrow> nat \<Rightarrow> string option" where
  "group m i = (if i = 0 then Some (fst m)
                else if i \<le> length (snd m) then snd m ! (i - 1) else None)"

definition mk_match :: "rx \<Rightarrow> string \<Rightarrow> mstate \<Rightarrow> match" where
  "mk_match r s st =
     (take (length s - length (fst st)) s, map (map_of (snd st)) [1 ..< Suc (ngroups r)])"

text \<open>
  \<^verbatim>\<open>RegExp.prototype.exec\<close> from the front of \<open>s\<close>: the leftmost position at which the
  pattern matches, and there the first match. The result is the text before the match,
  the match, and the text after it.
\<close>

fun rx_exec :: "rx \<Rightarrow> string \<Rightarrow> (string \<times> match \<times> string) option" where
  "rx_exec r [] =
     (case ms r ([], []) of
        st # _ \<Rightarrow> Some ([], mk_match r [] st, fst st)
      | [] \<Rightarrow> None)"
| "rx_exec r (x # xs) =
     (case ms r (x # xs, []) of
        st # _ \<Rightarrow> Some ([], mk_match r (x # xs) st, fst st)
      | [] \<Rightarrow>
         (case rx_exec r xs of
            None \<Rightarrow> None
          | Some (pre, m, rest) \<Rightarrow> Some (x # pre, m, rest)))"

text \<open>\<^verbatim>\<open>String.prototype.match\<close> with a pattern that has no \<^verbatim>\<open>g\<close> flag: the match or null.\<close>

definition String_match :: "string \<Rightarrow> rx \<Rightarrow> match option" where
  "String_match s r = map_option (\<lambda>(pre, m, rest). m) (rx_exec r s)"

text \<open>The same for a pattern \<^verbatim>\<open>^r\<close>, which can only match at the front of the text.\<close>

definition String_match_anchored :: "string \<Rightarrow> rx \<Rightarrow> match option" where
  "String_match_anchored s r =
     (case ms r (s, []) of st # _ \<Rightarrow> Some (mk_match r s st) | [] \<Rightarrow> None)"

text \<open>A match never reads backwards: what is left is a suffix of what there was.\<close>

lemma ms_suffix: "st' \<in> set (ms r st) \<Longrightarrow> \<exists>u. fst st = u @ fst st'"
proof (induction r st arbitrary: st' rule: ms.induct)
  case (5 r1 r2 st)
  from "5.prems" obtain st1 where st1: "st1 \<in> set (ms r1 st)" and st': "st' \<in> set (ms r2 st1)"
    by auto
  from "5.IH"(1)[OF st1] obtain u where "fst st = u @ fst st1" by blast
  moreover from "5.IH"(2)[OF st1 st'] obtain v where "fst st1 = v @ fst st'" by blast
  ultimately show ?case by simp
next
  case (7 r s c)
  show ?case
  proof (cases "st' = (s, c)")
    case True
    then show ?thesis by simp
  next
    case False
    with "7.prems" obtain st1 where st1: "st1 \<in> set (ms r (s, c))"
      and lt: "length (fst st1) < length s" and st': "st' \<in> set (ms (Star r) st1)"
      by (auto split: if_splits)
    from "7.IH"(1)[OF st1] obtain u where "s = u @ fst st1" by auto
    moreover from "7.IH"(2)[OF st1 lt st'] obtain v where "fst st1 = v @ fst st'" by blast
    ultimately show ?thesis by simp
  qed
qed (auto split: list.splits if_splits)

lemma ms_hd_suffix: "ms r (s, c) = st # sts \<Longrightarrow> \<exists>u. s = u @ fst st"
  using ms_suffix[of st r "(s, c)"] by simp

lemma rx_exec_split:
  "rx_exec r s = Some (pre, m, rest) \<Longrightarrow> s = pre @ fst m @ rest"
proof (induction s arbitrary: pre)
  case Nil
  then show ?case
    by (auto simp: mk_match_def split: list.splits dest: ms_hd_suffix)
next
  case (Cons x xs)
  show ?case
  proof (cases "ms r (x # xs, [])")
    case Nil
    with Cons.prems obtain pre' where "rx_exec r xs = Some (pre', m, rest)" and "pre = x # pre'"
      by (auto split: option.splits)
    with Cons.IH show ?thesis by simp
  next
    case (Cons st sts)
    from ms_hd_suffix[OF this] obtain u where u: "x # xs = u @ fst st" by auto
    from Cons Cons.prems have "pre = []" "m = mk_match r (x # xs) st" "rest = fst st"
      by auto
    with u show ?thesis by (simp add: mk_match_def)
  qed
qed

text \<open>
  The matches of a pattern with the \<^verbatim>\<open>g\<close> flag, as \<^verbatim>\<open>String.prototype.match\<close> and
  \<^verbatim>\<open>matchAll\<close> enumerate them: each search starts where the previous match ended, one
  character further when that match was empty.
\<close>

function rx_matches :: "rx \<Rightarrow> string \<Rightarrow> match list" where
  "rx_matches r s =
     (case rx_exec r s of
        None \<Rightarrow> []
      | Some (pre, m, rest) \<Rightarrow>
          m # (if fst m = [] then (case rest of [] \<Rightarrow> [] | x # xs \<Rightarrow> rx_matches r xs)
               else rx_matches r rest))"
  by pat_completeness auto
termination
proof (relation "measure (\<lambda>(r, s). length s)", goal_cases)
  case 1
  then show ?case by simp
next
  case (2 r s x2 pre y m rest x xs)
  then have "s = pre @ fst m @ rest" by (intro rx_exec_split) simp
  with 2 show ?case by simp
next
  case (3 r s x2 pre y m rest)
  then have "s = pre @ fst m @ rest" by (intro rx_exec_split) simp
  with 3 show ?case by simp
qed

text \<open>
  \<^verbatim>\<open>String.prototype.match\<close> with a \<^verbatim>\<open>g\<close> pattern: null when nothing matches, otherwise
  the array of the matched texts, which has a first element.
\<close>

definition String_match_g :: "string \<Rightarrow> rx \<Rightarrow> (string \<times> string list) option" where
  "String_match_g s r =
     (case rx_matches r s of [] \<Rightarrow> None | m # ms' \<Rightarrow> Some (fst m, map fst ms'))"

text \<open>\<^verbatim>\<open>[...s.matchAll(r)].map(match => match[1])\<close>.\<close>

definition matchAll_group1 :: "string \<Rightarrow> rx \<Rightarrow> string option list" where
  "matchAll_group1 s r = map (\<lambda>m. group m 1) (rx_matches r s)"

section \<open>JavaScript values and helpers\<close>

text \<open>
  The JavaScript Numbers that \<^verbatim>\<open>Number.parseInt\<close> can return: NaN, the two infinities, and
  the doubles that hold an integer, each given by the integer it holds. Negative zero is
  not told from zero; no comparison of the module tells them apart.
\<close>

datatype number = NaN | NegInfinity | Finite int | Infinity

text \<open>
  The order of \<^verbatim>\<open><\<close> and \<^verbatim>\<open>>\<close> on Numbers. NaN, which JavaScript compares with nothing, is
  put below all the others to make the order total.
\<close>

instantiation number :: linorder
begin

fun less_eq_number :: "number \<Rightarrow> number \<Rightarrow> bool" where
  "less_eq_number NaN b = True"
| "less_eq_number NegInfinity b = (b \<noteq> NaN)"
| "less_eq_number (Finite x) b = (case b of Finite y \<Rightarrow> x \<le> y | Infinity \<Rightarrow> True | _ \<Rightarrow> False)"
| "less_eq_number Infinity b = (b = Infinity)"

definition less_number :: "number \<Rightarrow> number \<Rightarrow> bool" where
  "less_number a b = (a \<le> b \<and> \<not> b \<le> a)"

instance
proof
  fix a b c :: number
  show "(a < b) = (a \<le> b \<and> \<not> b \<le> a)" by (rule less_number_def)
  show "a \<le> a" by (cases a) simp_all
  show "a \<le> b \<Longrightarrow> b \<le> c \<Longrightarrow> a \<le> c" by (cases a; cases b; cases c) simp_all
  show "a \<le> b \<Longrightarrow> b \<le> a \<Longrightarrow> a = b" by (cases a; cases b) simp_all
  show "a \<le> b \<or> b \<le> a" by (cases a; cases b) auto
qed

end

text \<open>The unary minus on Numbers.\<close>

fun negate :: "number \<Rightarrow> number" where
  "negate NaN = NaN"
| "negate NegInfinity = Infinity"
| "negate (Finite x) = Finite (- x)"
| "negate Infinity = NegInfinity"

text \<open>The number of binary digits of a natural number.\<close>

function bitLength :: "nat \<Rightarrow> nat" where
  "bitLength n = (if n = 0 then 0 else Suc (bitLength (n div 2)))"
  by pat_completeness auto
termination
  by (relation "measure id") auto

declare bitLength.simps [simp del]

text \<open>
  The Number for a natural number: the nearest double, whose significand has 53 binary
  digits. Of two doubles equally near, the one with the even significand is taken; what
  rounds up to \<open>2^1024\<close>, a number of more than 1024 binary digits, is \<open>Infinity\<close>. Below
  \<open>2^53\<close> every natural number is a double.
\<close>

definition roundTiesToEven :: "nat \<Rightarrow> number" where
  "roundTiesToEven n =
     (let e = bitLength n - 53;
          q = n div 2 ^ e;
          r = n mod 2 ^ e;
          q' = (if 2 ^ e < 2 * r \<or> (2 * r = 2 ^ e \<and> odd q) then q + 1 else q);
          v = q' * 2 ^ e
      in if 1024 < bitLength v then Infinity else Finite (int v))"

datatype js_error =
    TypeError
  | Error string
  | GithubError string

definition isWhiteSpace :: "char \<Rightarrow> bool" where
  "isWhiteSpace ch = (ch \<in> set [CHR 0x09, LF, CHR 0x0B, CHR 0x0C, CR, CHR '' ''])"

definition isDigit :: "char \<Rightarrow> bool" where
  "isDigit ch = (ch \<in> set ''0123456789'')"

definition digit_value :: "char \<Rightarrow> nat" where
  "digit_value ch = of_char ch - 48"

definition digits_value :: "string \<Rightarrow> nat" where
  "digits_value ds = foldl (\<lambda>n d. 10 * n + digit_value d) 0 ds"

text \<open>
  \<^verbatim>\<open>Number.parseInt(x, 10)\<close>: leading white space is skipped, a sign is read, then the
  longest run of decimal digits; NaN when there is none. The result is the Number for the
  integer that the digits write, rounded as a double is (ECMAScript lets an engine read
  the digits after the twentieth as zeros; the rounding here is the exact one).
  \<^verbatim>\<open>undefined\<close> is read as the text \<^verbatim>\<open>undefined\<close>, which gives NaN.
\<close>

definition parseInt10 :: "string option \<Rightarrow> number" where
  "parseInt10 x =
     (case x of
        None \<Rightarrow> NaN
      | Some s \<Rightarrow>
          (let t = dropWhile isWhiteSpace s;
               neg = (case t of [] \<Rightarrow> False | ch # _ \<Rightarrow> ch = CHR ''-'');
               u = (case t of [] \<Rightarrow> [] | ch # rest \<Rightarrow> if ch = CHR ''-'' \<or> ch = CHR ''+'' then rest else t);
               ds = takeWhile isDigit u
           in if ds = [] then NaN
              else if neg then negate (roundTiesToEven (digits_value ds))
              else roundTiesToEven (digits_value ds)))"

text \<open>\<^verbatim>\<open>String.prototype.trim\<close>.\<close>

definition trim :: "string \<Rightarrow> string" where
  "trim s = rev (dropWhile isWhiteSpace (rev (dropWhile isWhiteSpace s)))"

text \<open>\<^verbatim>\<open>String.prototype.split\<close> at a character.\<close>

fun split_at :: "char \<Rightarrow> string \<Rightarrow> string list" where
  "split_at d [] = [[]]"
| "split_at d (x # xs) =
     (if x = d then [] # split_at d xs
      else (case split_at d xs of [] \<Rightarrow> [[x]] | w # ws \<Rightarrow> (x # w) # ws))"

text \<open>\<^verbatim>\<open>Array.prototype.join\<close>.\<close>

fun join :: "string \<Rightarrow> string list \<Rightarrow> string" where
  "join d [] = []"
| "join d [w] = w"
| "join d (w # ws) = w @ d @ join d ws"

text \<open>The decimal text of a Number that holds a natural number.\<close>

function show_nat :: "nat \<Rightarrow> string" where
  "show_nat n =
     (if n < 10 then [char_of (48 + n)]
      else show_nat (n div 10) @ [char_of (48 + n mod 10)])"
  by pat_completeness auto
termination
  by (relation "measure id") auto

declare show_nat.simps [simp del]

section \<open>Constants and patterns of the module\<close>

definition GITHUB_OWNER :: string where
  "GITHUB_OWNER = ''Expensify''"

definition EXPENSIFY_CASH_REPO :: string where
  "EXPENSIFY_CASH_REPO = ''Expensify.cash''"

definition EXPENSIFY_CASH_URL :: string where
  "EXPENSIFY_CASH_URL = ''https://github.com/Expensify/Expensify.cash''"

definition STAGING_DEPLOY_CASH_LABEL :: string where
  "STAGING_DEPLOY_CASH_LABEL = ''StagingDeployCash''"

definition digit :: rx where
  "digit = Cls ''0123456789''"

text \<open>\<^verbatim>\<open>https?://(?:github\.com|api\.github\.com)\<close>\<close>

definition GITHUB_BASE_URL_REGEX :: rx where
  "GITHUB_BASE_URL_REGEX =
     seqs [str ''http'', Opt (Lit CHR ''s''), str ''://'',
           Alt (str ''github.com'') (str ''api.github.com'')]"

text \<open>
  The three URL patterns. The source of a pattern is reused inside larger patterns, where
  its group gets another number; \<open>g\<close> is the number of its one group.

  \<^verbatim>\<open>${GITHUB_BASE_URL_REGEX.source}/.*/.*/pull/([0-9]+).*\<close>
\<close>

definition PULL_REQUEST_REGEX_source :: "nat \<Rightarrow> rx" where
  "PULL_REQUEST_REGEX_source g =
     seqs [GITHUB_BASE_URL_REGEX, Lit CHR ''/'', Star Dot, Lit CHR ''/'', Star Dot,
           str ''/pull/'', Grp g (Plus digit), Star Dot]"

text \<open>\<^verbatim>\<open>${GITHUB_BASE_URL_REGEX.source}/.*/.*/issues/([0-9]+).*\<close>\<close>

definition ISSUE_REGEX_source :: "nat \<Rightarrow> rx" where
  "ISSUE_REGEX_source g =
     seqs [GITHUB_BASE_URL_REGEX, Lit CHR ''/'', Star Dot, Lit CHR ''/'', Star Dot,
           str ''/issues/'', Grp g (Plus digit), Star Dot]"

text \<open>\<^verbatim>\<open>${GITHUB_BASE_URL_REGEX.source}/.*/.*/(?:pull|issues)/([0-9]+).*\<close>\<close>

definition ISSUE_OR_PULL_REQUEST_REGEX_source :: "nat \<Rightarrow> rx" where
  "ISSUE_OR_PULL_REQUEST_REGEX_source g =
     seqs [GITHUB_BASE_URL_REGEX, Lit CHR ''/'', Star Dot, Lit CHR ''/'', Star Dot,
           Lit CHR ''/'', Alt (str ''pull'') (str ''issues''), Lit CHR ''/'',
           Grp g (Plus digit), Star Dot]"

definition PULL_REQUEST_REGEX :: rx where
  "PULL_REQUEST_REGEX = PULL_REQUEST_REGEX_source 1"

definition ISSUE_REGEX :: rx where
  "ISSUE_REGEX = ISSUE_REGEX_source 1"

definition ISSUE_OR_PULL_REQUEST_REGEX :: rx where
  "ISSUE_OR_PULL_REQUEST_REGEX = ISSUE_OR_PULL_REQUEST_REGEX_source 1"

section \<open>The URL identifier parsers\<close>

text \<open>
  \<^verbatim>\<open>matches\<close> is null or a match array; the array of a pattern with one group has length
  2. The three functions differ in the pattern and in the message of the error.
\<close>

definition getPullRequestNumberFromURL :: "string \<Rightarrow> js_error + number" where
  "getPullRequestNumberFromURL URL =
     (case String_match URL PULL_REQUEST_REGEX of
        None \<Rightarrow> Inl (Error (''Provided URL '' @ URL @ '' is not a Github Pull Request!''))
      | Some matches \<Rightarrow>
          if match_length matches \<noteq> 2
          then Inl (Error (''Provided URL '' @ URL @ '' is not a Github Pull Request!''))
          else Inr (parseInt10 (group matches 1)))"

definition getIssueNumberFromURL :: "string \<Rightarrow> js_error + number" where
  "getIssueNumberFromURL URL =
     (case String_match URL ISSUE_REGEX of
        None \<Rightarrow> Inl (Error (''Provided URL '' @ URL @ '' is not a Github Issue!''))
      | Some matches \<Rightarrow>
          if match_length matches \<noteq> 2
          then Inl (Error (''Provided URL '' @ URL @ '' is not a Github Issue!''))
          else Inr (parseInt10 (group matches 1)))"

definition getIssueOrPullRequestNumberFromURL :: "string \<Rightarrow> js_error + number" where
  "getIssueOrPullRequestNumberFromURL URL =
     (case String_match URL ISSUE_OR_PULL_REQUEST_REGEX of
        None \<Rightarrow>
          Inl (Error (''Provided URL '' @ URL @ '' is not a valid Github Issue or Pull Request!''))
      | Some matches \<Rightarrow>
          if match_length matches \<noteq> 2
          then Inl (Error (''Provided URL '' @ URL @ '' is not a valid Github Issue or Pull Request!''))
          else Inr (parseInt10 (group matches 1)))"

section \<open>The semver package\<close>

text \<open>
  Modelled from the spec: \<^verbatim>\<open>semverParse\<close> and \<^verbatim>\<open>semverSatisfies\<close> are imported from the
  \<^verbatim>\<open>semver\<close> package (version 7), which is no part of the repository. The spec asks for
  "standard semver precedence" and names the ranges; the definitions below follow the
  package: \<^verbatim>\<open>classes/semver.js\<close> for parsing and comparison, \<^verbatim>\<open>replaceXRange\<close> of
  \<^verbatim>\<open>classes/range.js\<close> for ranges with \<^verbatim>\<open>x\<close>, always with \<^verbatim>\<open>{includePrerelease: true}\<close>, the
  only option the module passes. Build metadata plays no part in a comparison and is dropped.
\<close>

datatype pre_id = NumId nat | StrId string

record semver =
  major :: nat
  minor :: nat
  patch :: nat
  prerelease :: "pre_id list"

definition MAX_LENGTH :: nat where
  "MAX_LENGTH = 256"

definition MAX_SAFE_INTEGER :: nat where
  "MAX_SAFE_INTEGER = 9007199254740991"

definition letter_or_dash :: "char list" where
  "letter_or_dash = ''abcdefghijklmnopqrstuvwxyzABCDEFGHIJKLMNOPQRSTUVWXYZ-''"

definition LETTERDASHNUMBER :: rx where
  "LETTERDASHNUMBER = Cls (''abcdefghijklmnopqrstuvwxyzABCDEFGHIJKLMNOPQRSTUVWXYZ'' @ ''0123456789-'')"

text \<open>\<^verbatim>\<open>0|[1-9]\d*\<close>\<close>

definition NUMERICIDENTIFIER :: rx where
  "NUMERICIDENTIFIER = Alt (Lit CHR ''0'') (Seq (Cls ''123456789'') (Star digit))"

text \<open>\<^verbatim>\<open>\d*[a-zA-Z-][a-zA-Z0-9-]*\<close>\<close>

definition NONNUMERICIDENTIFIER :: rx where
  "NONNUMERICIDENTIFIER = seqs [Star digit, Cls letter_or_dash, Star LETTERDASHNUMBER]"

definition PRERELEASEIDENTIFIER :: rx where
  "PRERELEASEIDENTIFIER = Alt NONNUMERICIDENTIFIER NUMERICIDENTIFIER"

definition BUILDIDENTIFIER :: rx where
  "BUILDIDENTIFIER = Plus LETTERDASHNUMBER"

text \<open>
  \<^verbatim>\<open>FULL\<close>, without its leading \<^verbatim>\<open>^\<close>:
  \<^verbatim>\<open>v?(NUM)\.(NUM)\.(NUM)(?:-(PRE(?:\.PRE)*))?(?:\+(BUILD(?:\.BUILD)*))?$\<close>
\<close>

definition FULL :: rx where
  "FULL =
     seqs [Opt (Lit CHR ''v''),
           Grp 1 NUMERICIDENTIFIER, Lit CHR ''.'', Grp 2 NUMERICIDENTIFIER, Lit CHR ''.'',
           Grp 3 NUMERICIDENTIFIER,
           Opt (Seq (Lit CHR ''-'')
                    (Grp 4 (Seq PRERELEASEIDENTIFIER
                                (Star (Seq (Lit CHR ''.'') PRERELEASEIDENTIFIER))))),
           Opt (Seq (Lit CHR ''+'')
                    (Grp 5 (Seq BUILDIDENTIFIER (Star (Seq (Lit CHR ''.'') BUILDIDENTIFIER))))),
           Eos]"

text \<open>
  A prerelease identifier made of digits becomes a number when it is below
  \<^verbatim>\<open>MAX_SAFE_INTEGER\<close>, and stays a string otherwise.
\<close>

definition numberify :: "string \<Rightarrow> pre_id" where
  "numberify ident =
     (if ident \<noteq> [] \<and> list_all isDigit ident \<and> digits_value ident < MAX_SAFE_INTEGER
      then NumId (digits_value ident) else StrId ident)"

text \<open>\<^verbatim>\<open>new SemVer(version)\<close> inside \<^verbatim>\<open>parse\<close>: null (\<open>None\<close>) where the constructor throws.\<close>

definition semverParse :: "string \<Rightarrow> semver option" where
  "semverParse version =
     (if length version > MAX_LENGTH then None
      else case String_match_anchored (trim version) FULL of
        None \<Rightarrow> None
      | Some m \<Rightarrow>
          (case (group m 1, group m 2, group m 3) of
             (Some m1, Some m2, Some m3) \<Rightarrow>
               if digits_value m1 > MAX_SAFE_INTEGER \<or> digits_value m2 > MAX_SAFE_INTEGER
                  \<or> digits_value m3 > MAX_SAFE_INTEGER
               then None
               else Some \<lparr> major = digits_value m1, minor = digits_value m2,
                           patch = digits_value m3,
                           prerelease = (case group m 4 of
                                           None \<Rightarrow> []
                                         | Some pre \<Rightarrow>
                                             if pre = [] then []
                                             else map numberify (split_at CHR ''.'' pre)) \<rparr>
           | _ \<Rightarrow> None))"

text \<open>\<^verbatim>\<open>SemVer.format\<close>, the \<^verbatim>\<open>version\<close> field, which is also what \<^verbatim>\<open>toString\<close> returns.\<close>

definition identifier_text :: "pre_id \<Rightarrow> string" where
  "identifier_text ident = (case ident of NumId n \<Rightarrow> show_nat n | StrId t \<Rightarrow> t)"

definition version :: "semver \<Rightarrow> string" where
  "version v =
     show_nat (major v) @ ''.'' @ show_nat (minor v) @ ''.'' @ show_nat (patch v)
     @ (if prerelease v \<noteq> [] then ''-'' @ join ''.'' (map identifier_text (prerelease v)) else [])"

text \<open>
  \<^verbatim>\<open>compareIdentifiers\<close>: numbers before other identifiers, numbers by value, the others
  as JavaScript orders strings (by character code). The result is \<open>-1\<close>, \<open>0\<close> or \<open>1\<close>.
\<close>

fun string_less :: "string \<Rightarrow> string \<Rightarrow> bool" where
  "string_less [] [] = False"
| "string_less [] (y # ys) = True"
| "string_less (x # xs) [] = False"
| "string_less (x # xs) (y # ys) =
     (if x = y then string_less xs ys else (of_char x :: nat) < of_char y)"

definition numeric_value :: "pre_id \<Rightarrow> nat option" where
  "numeric_value ident =
     (case ident of
        NumId n \<Rightarrow> Some n
      | StrId t \<Rightarrow> if t \<noteq> [] \<and> list_all isDigit t then Some (digits_value t) else None)"

definition compareIdentifiers :: "pre_id \<Rightarrow> pre_id \<Rightarrow> int" where
  "compareIdentifiers a b =
     (case (numeric_value a, numeric_value b) of
        (Some x, Some y) \<Rightarrow> if x = y then 0 else if x < y then -1 else 1
      | (Some x, None) \<Rightarrow> -1
      | (None, Some y) \<Rightarrow> 1
      | (None, None) \<Rightarrow>
          if identifier_text a = identifier_text b then 0
          else if string_less (identifier_text a) (identifier_text b) then -1 else 1)"

definition compareNumbers :: "nat \<Rightarrow> nat \<Rightarrow> int" where
  "compareNumbers a b = (if a = b then 0 else if a < b then -1 else 1)"

definition compareMain :: "semver \<Rightarrow> semver \<Rightarrow> int" where
  "compareMain a b =
     (if compareNumbers (major a) (major b) \<noteq> 0 then compareNumbers (major a) (major b)
      else if compareNumbers (minor a) (minor b) \<noteq> 0 then compareNumbers (minor a) (minor b)
      else compareNumbers (patch a) (patch b))"

fun comparePre_loop :: "pre_id list \<Rightarrow> pre_id list \<Rightarrow> int" where
  "comparePre_loop [] [] = 0"
| "comparePre_loop (a # as) [] = 1"
| "comparePre_loop [] (b # bs) = -1"
| "comparePre_loop (a # as) (b # bs) =
     (if a = b then comparePre_loop as bs else compareIdentifiers a b)"

definition comparePre :: "semver \<Rightarrow> semver \<Rightarrow> int" where
  "comparePre a b =
     (if prerelease a \<noteq> [] \<and> prerelease b = [] then -1
      else if prerelease a = [] \<and> prerelease b \<noteq> [] then 1
      else if prerelease a = [] \<and> prerelease b = [] then 0
      else comparePre_loop (prerelease a) (prerelease b))"

definition compare :: "semver \<Rightarrow> semver \<Rightarrow> int" where
  "compare a b =
     (if version b = version a then 0
      else if compareMain a b \<noteq> 0 then compareMain a b else comparePre a b)"

text \<open>
  Ranges. The module builds four range strings, each one comparator: an operator and a
  version whose parts may be \<^verbatim>\<open>x\<close>. \<^verbatim>\<open>gtlt\<close> is the operator as written;
  \<^verbatim>\<open>operator\<close> is the one of the comparator after \<^verbatim>\<open>replaceXRange\<close>, where \<^verbatim>\<open>=\<close> and no
  operator are the same.
\<close>

datatype gtlt = G_lt | G_le | G_gt | G_ge | G_eq | G_none

datatype operator = Op_lt | Op_le | Op_gt | Op_ge | Op_eq

datatype xr = X | N nat

record xrange =
  xr_gtlt :: gtlt
  xr_major :: xr
  xr_minor :: xr
  xr_patch :: xr
  xr_prerelease :: "pre_id list"

definition operator_of :: "gtlt \<Rightarrow> operator" where
  "operator_of g =
     (case g of G_lt \<Rightarrow> Op_lt | G_le \<Rightarrow> Op_le | G_gt \<Rightarrow> Op_gt | G_ge \<Rightarrow> Op_ge
      | G_eq \<Rightarrow> Op_eq | G_none \<Rightarrow> Op_eq)"

definition pre0 :: "nat \<Rightarrow> nat \<Rightarrow> nat \<Rightarrow> semver" where
  "pre0 M m p = \<lparr> major = M, minor = m, patch = p, prerelease = [NumId 0] \<rparr>"

text \<open>
  \<^verbatim>\<open>replaceXRange\<close> with \<^verbatim>\<open>includePrerelease\<close>: the comparators a comparator with
  \<^verbatim>\<open>x\<close> stands for, all of which a version must pass. No comparator is \<^verbatim>\<open>*\<close>.
\<close>

fun replaceXRange :: "gtlt \<Rightarrow> xr \<Rightarrow> xr \<Rightarrow> xr \<Rightarrow> pre_id list \<Rightarrow> (operator \<times> semver) list" where
  "replaceXRange g X m p pr =
     (if g = G_gt \<or> g = G_lt then [(Op_lt, pre0 0 0 0)] else [])"
| "replaceXRange g (N M) X p pr =
     (if g = G_eq \<or> g = G_none then [(Op_ge, pre0 M 0 0), (Op_lt, pre0 (M + 1) 0 0)]
      else if g = G_gt then [(Op_ge, pre0 (M + 1) 0 0)]
      else if g = G_le then [(Op_lt, pre0 (M + 1) 0 0)]
      else [(operator_of g, pre0 M 0 0)])"
| "replaceXRange g (N M) (N m) X pr =
     (if g = G_eq \<or> g = G_none then [(Op_ge, pre0 M m 0), (Op_lt, pre0 M (m + 1) 0)]
      else if g = G_gt then [(Op_ge, pre0 M (m + 1) 0)]
      else if g = G_le then [(Op_lt, pre0 M (m + 1) 0)]
      else [(operator_of g, pre0 M m 0)])"
| "replaceXRange g (N M) (N m) (N p) pr =
     [(operator_of g, \<lparr> major = M, minor = m, patch = p, prerelease = pr \<rparr>)]"

text \<open>\<^verbatim>\<open>cmp\<close> and \<^verbatim>\<open>Comparator.test\<close>.\<close>

definition cmp :: "semver \<Rightarrow> operator \<Rightarrow> semver \<Rightarrow> bool" where
  "cmp a oper b =
     (case oper of
        Op_lt \<Rightarrow> compare a b < 0
      | Op_le \<Rightarrow> compare a b \<le> 0
      | Op_gt \<Rightarrow> compare a b > 0
      | Op_ge \<Rightarrow> compare a b \<ge> 0
      | Op_eq \<Rightarrow> compare a b = 0)"

text \<open>
  \<^verbatim>\<open>satisfies(version, range, {includePrerelease: true})\<close>: false for a text that is no
  version; otherwise the version must pass every comparator of the range.
\<close>

definition semverSatisfies :: "string \<Rightarrow> xrange \<Rightarrow> bool" where
  "semverSatisfies v rng =
     (case semverParse v of
        None \<Rightarrow> False
      | Some sv \<Rightarrow>
          list_all (\<lambda>(oper, w). cmp sv oper w)
            (replaceXRange (xr_gtlt rng) (xr_major rng) (xr_minor rng) (xr_patch rng)
               (xr_prerelease rng)))"

section \<open>Decoding a checklist: \<^verbatim>\<open>getStagingDeployCashData\<close>\<close>

text \<open>
  A GitHub issue as the function reads it. The body of an issue without text is null.
\<close>

record 'l issue =
  issue_title :: string
  issue_url :: string
  issue_labels :: 'l
  issue_body :: "string option"

text \<open>
  The object the function returns. An entry of \<open>PRList\<close> or \<open>deployBlockers\<close> is
  \<^verbatim>\<open>match[1]\<close>, a string or \<^verbatim>\<open>undefined\<close>.
\<close>

record 'l checklist =
  title :: string
  url :: string
  labels :: 'l
  tag :: string
  comparisonURL :: string
  PRList :: "string option list"
  deployBlockers :: "string option list"

text \<open>\<^verbatim>\<open>([0-9]+)\.([0-9]+)\.([0-9]+)(?:-([0-9]+))?\<close>, its groups numbered from \<open>g\<close>.\<close>

definition versionRegex_source :: "nat \<Rightarrow> rx" where
  "versionRegex_source g =
     seqs [Grp g (Plus digit), Lit CHR ''.'', Grp (g + 1) (Plus digit), Lit CHR ''.'',
           Grp (g + 2) (Plus digit), Opt (Seq (Lit CHR ''-'') (Grp (g + 3) (Plus digit)))]"

definition versionRegex :: rx where
  "versionRegex = versionRegex_source 1"

text \<open>
  A string constant spliced into a pattern: every character stands for itself, but a dot
  is the wildcard. (\<^verbatim>\<open>EXPENSIFY_CASH_URL\<close> holds no other special character.)
\<close>

fun spliced :: "string \<Rightarrow> rx" where
  "spliced [] = Eps"
| "spliced (x # xs) = Seq (if x = CHR ''.'' then Dot else Lit x) (spliced xs)"

text \<open>\<^verbatim>\<open>${EXPENSIFY_CASH_URL}/compare/${versionRegex.source}\.\.\.${versionRegex.source}\<close>\<close>

definition compareURLRegex :: rx where
  "compareURLRegex =
     seqs [spliced EXPENSIFY_CASH_URL, str ''/compare/'', versionRegex_source 1, str ''...'',
           versionRegex_source 5]"

text \<open>\<^verbatim>\<open>- \[[ x]] (${ISSUE_OR_PULL_REQUEST_REGEX.source})\<close>\<close>

definition checklistItemRegex :: rx where
  "checklistItemRegex =
     seqs [str ''- ['', Cls '' x'', str ''] '', Grp 1 (ISSUE_OR_PULL_REQUEST_REGEX_source 2)]"

text \<open>\<^verbatim>\<open>/pull requests:\*\*\r\n((?:.*\r\n)+)\r\n/\<close>\<close>

definition PRListSectionRegex :: rx where
  "PRListSectionRegex =
     seqs [str ''pull requests:**'', Lit CR, Lit LF,
           Grp 1 (Plus (seqs [Star Dot, Lit CR, Lit LF])), Lit CR, Lit LF]"

text \<open>\<^verbatim>\<open>/Deploy Blockers:\*\*\r\n((?:.*\r\n)+)/\<close>\<close>

definition deployBlockerSectionRegex :: rx where
  "deployBlockerSectionRegex =
     seqs [str ''Deploy Blockers:**'', Lit CR, Lit LF,
           Grp 1 (Plus (seqs [Star Dot, Lit CR, Lit LF]))]"

text \<open>
  The body of the \<^verbatim>\<open>try\<close> block. Reading a property of null or \<^verbatim>\<open>undefined\<close> throws a
  TypeError: of a null body, of the null that \<^verbatim>\<open>match\<close> returns when nothing matches.
\<close>

definition getStagingDeployCashData_try :: "'l issue \<Rightarrow> js_error + 'l checklist" where
  "getStagingDeployCashData_try issue =
     (case issue_body issue of
        None \<Rightarrow> Inl TypeError
      | Some body \<Rightarrow>
     (case String_match_g body versionRegex of
        None \<Rightarrow> Inl TypeError
      | Some (version0, _) \<Rightarrow>
     (case String_match_g body compareURLRegex of
        None \<Rightarrow> Inl TypeError
      | Some (comparisonURL0, _) \<Rightarrow>
     (case String_match body PRListSectionRegex of
        None \<Rightarrow> Inl TypeError
      | Some sectionMatch \<Rightarrow>
     (case group sectionMatch 1 of
        None \<Rightarrow> Inl TypeError
      | Some PRListSection \<Rightarrow>
     (case String_match body deployBlockerSectionRegex of
        None \<Rightarrow> Inl TypeError
      | Some blockerMatch \<Rightarrow>
     (case group blockerMatch 1 of
        None \<Rightarrow> Inl TypeError
      | Some deployBlockerSection \<Rightarrow>
          Inr \<lparr> title = issue_title issue, url = issue_url issue, labels = issue_labels issue,
                tag = filter (\<lambda>ch. ch \<noteq> CHR 0x60) version0,
                comparisonURL = comparisonURL0,
                PRList = matchAll_group1 PRListSection checklistItemRegex,
                deployBlockers = matchAll_group1 deployBlockerSection checklistItemRegex \<rparr>)))))))"

text \<open>The \<^verbatim>\<open>catch\<close> clause replaces whatever was thrown by one error.\<close>

definition MalformedChecklist :: js_error where
  "MalformedChecklist =
     Error (''Unable to find '' @ STAGING_DEPLOY_CASH_LABEL @ '' issue with correct data.'')"

definition getStagingDeployCashData :: "'l issue \<Rightarrow> js_error + 'l checklist" where
  "getStagingDeployCashData issue =
     (case getStagingDeployCashData_try issue of
        Inl exception \<Rightarrow> Inl MalformedChecklist
      | Inr result \<Rightarrow> Inr result)"

section \<open>The version comparator: \<^verbatim>\<open>generateVersionComparisonURL\<close>\<close>

text \<open>
  A promise, by its outcome: resolved with a value, rejected with an error, or never
  settled (neither \<^verbatim>\<open>resolve\<close> nor \<^verbatim>\<open>reject\<close> is ever called).
\<close>

datatype 'a promise = Resolved 'a | Rejected js_error | Pending

definition getComparisonURL :: "string \<Rightarrow> string \<Rightarrow> string" where
  "getComparisonURL previousTag currentTag =
     EXPENSIFY_CASH_URL @ ''/compare/'' @ previousTag @ ''...'' @ currentTag"

text \<open>
  The four ranges, as the template strings build them from the anchor \<^verbatim>\<open>tagSemver\<close>:
  \<^verbatim>\<open><${major}.x.x\<close>, \<^verbatim>\<open><${major}.${minor}.x\<close>, \<^verbatim>\<open><${tagSemver}\<close> (the whole version, with its
  prerelease part) and \<^verbatim>\<open><=${major}.${minor}.${patch}\<close>.
\<close>

definition range_MAJOR :: "semver \<Rightarrow> xrange" where
  "range_MAJOR t =
     \<lparr> xr_gtlt = G_lt, xr_major = N (major t), xr_minor = X, xr_patch = X, xr_prerelease = [] \<rparr>"

definition range_MINOR :: "semver \<Rightarrow> xrange" where
  "range_MINOR t =
     \<lparr> xr_gtlt = G_lt, xr_major = N (major t), xr_minor = N (minor t), xr_patch = X,
       xr_prerelease = [] \<rparr>"

definition range_PATCH :: "semver \<Rightarrow> xrange" where
  "range_PATCH t =
     \<lparr> xr_gtlt = G_lt, xr_major = N (major t), xr_minor = N (minor t), xr_patch = N (patch t),
       xr_prerelease = prerelease t \<rparr>"

definition range_BUILD :: "semver \<Rightarrow> xrange" where
  "range_BUILD t =
     \<lparr> xr_gtlt = G_le, xr_major = N (major t), xr_minor = N (minor t), xr_patch = N (patch t),
       xr_prerelease = [] \<rparr>"

text \<open>
  The callback of \<^verbatim>\<open>some\<close> on one tag of the listing: it throws (\<open>Inl\<close>), or resolves the
  promise with a URL and returns true (\<open>Some\<close>), or returns false (\<open>None\<close>). With a null
  anchor, reading \<^verbatim>\<open>tagSemver.major\<close> or \<^verbatim>\<open>tagSemver.version\<close> throws a TypeError, and the
  range \<^verbatim>\<open><null\<close> of level PATCH is no range, which \<^verbatim>\<open>satisfies\<close> answers with false.
\<close>

definition tagCallback :: "string \<Rightarrow> semver option \<Rightarrow> string \<Rightarrow> js_error + string option" where
  "tagCallback semverLevel tagSemver repoTag =
     (case tagSemver of
        None \<Rightarrow>
          if semverLevel = ''MAJOR'' \<or> semverLevel = ''MINOR'' \<or> semverLevel = ''BUILD''
          then Inl TypeError else Inr None
      | Some t \<Rightarrow>
          if semverLevel = ''MAJOR'' \<and> semverSatisfies repoTag (range_MAJOR t)
          then Inr (Some (getComparisonURL repoTag (version t)))
          else if semverLevel = ''MINOR'' \<and> semverSatisfies repoTag (range_MINOR t)
          then Inr (Some (getComparisonURL repoTag (version t)))
          else if semverLevel = ''PATCH'' \<and> semverSatisfies repoTag (range_PATCH t)
          then Inr (Some (getComparisonURL repoTag (version t)))
          else if semverLevel = ''BUILD'' \<and> repoTag \<noteq> version t
                  \<and> semverSatisfies repoTag (range_BUILD t)
          then Inr (Some (getComparisonURL repoTag (version t)))
          else Inr None)"

text \<open>
  \<^verbatim>\<open>data.some(callback)\<close> inside the promise: the first tag whose callback returns true
  resolves it, a throw is caught and rejects it, and when the listing ends without either
  nothing settles it.
\<close>

fun someTag :: "(string \<Rightarrow> js_error + string option) \<Rightarrow> string list \<Rightarrow> string promise" where
  "someTag callback [] = Pending"
| "someTag callback (repoTag # data) =
     (case callback repoTag of
        Inl exception \<Rightarrow> Rejected exception
      | Inr (Some comparison) \<Rightarrow> Resolved comparison
      | Inr None \<Rightarrow> someTag callback data)"

text \<open>\<^verbatim>\<open>xs[i]\<close> on an array: \<^verbatim>\<open>undefined\<close> past its end.\<close>

definition at_index :: "'a list \<Rightarrow> nat \<Rightarrow> 'a option" where
  "at_index xs i = (if i < length xs then Some (xs ! i) else None)"

text \<open>
  \<open>listTags\<close> is \<^verbatim>\<open>octokit.repos.listTags\<close>, by what its promise settles to: an error, or
  the names of the tags of the response, in order.
\<close>

definition generateVersionComparisonURL ::
  "(string option \<Rightarrow> string option \<Rightarrow> js_error + string list) \<Rightarrow> string \<Rightarrow> string \<Rightarrow> string
   \<Rightarrow> string promise" where
  "generateVersionComparisonURL listTags repoSlug tag0 semverLevel =
     (let parts = split_at CHR ''/'' repoSlug;
          repoOwner = at_index parts 0;
          repoName = at_index parts 1;
          tagSemver = semverParse tag0
      in case listTags repoOwner repoName of
           Inl githubError \<Rightarrow> Rejected githubError
         | Inr data \<Rightarrow> someTag (tagCallback semverLevel tagSemver) data)"

section \<open>Encoding a checklist: \<^verbatim>\<open>generateStagingDeployCashBody\<close>\<close>

text \<open>\<^verbatim>\<open>_.unique\<close>: the first occurrence of each element, in order.\<close>

fun unique_from :: "'a list \<Rightarrow> 'a list \<Rightarrow> 'a list" where
  "unique_from result [] = result"
| "unique_from result (v # vs) =
     unique_from (if v \<in> set result then result else result @ [v]) vs"

definition unique :: "'a list \<Rightarrow> 'a list" where
  "unique xs = unique_from [] xs"

text \<open>
  \<^verbatim>\<open>_.sortBy(list, iteratee)\<close>: the criterion of every element is computed first, in order
  (a throw of the iteratee leaves the function); then the elements are sorted by criterion,
  elements of equal criterion in their former order. The criteria here are never NaN, for
  which the order of \<^verbatim>\<open>Array.prototype.sort\<close> would depend on the engine.
\<close>

fun criteria :: "('a \<Rightarrow> js_error + number) \<Rightarrow> 'a list \<Rightarrow> js_error + number list" where
  "criteria iteratee [] = Inr []"
| "criteria iteratee (v # vs) =
     (case iteratee v of
        Inl exception \<Rightarrow> Inl exception
      | Inr c \<Rightarrow> (case criteria iteratee vs of
                   Inl exception \<Rightarrow> Inl exception
                 | Inr cs \<Rightarrow> Inr (c # cs)))"

definition sortBy :: "'a list \<Rightarrow> ('a \<Rightarrow> js_error + number) \<Rightarrow> js_error + 'a list" where
  "sortBy xs iteratee =
     (case criteria iteratee xs of
        Inl exception \<Rightarrow> Inl exception
      | Inr cs \<Rightarrow> Inr (map fst (sort_key snd (zip xs cs))))"

text \<open>
  The loop \<^verbatim>\<open>_.each(sortedList, URL => { issueBody += ...; issueBody += ... })\<close>: each
  pass appends one line, the box ticked when the URL is among the checked ones.
\<close>

definition checklistLine :: "string list \<Rightarrow> string \<Rightarrow> string" where
  "checklistLine checked URL =
     (if URL \<in> set checked then ''- [x]'' else ''- [ ]'') @ '' '' @ URL @ [CR, LF]"

definition appendItems :: "string list \<Rightarrow> string list \<Rightarrow> string \<Rightarrow> string" where
  "appendItems checked sortedList issueBody =
     foldl (\<lambda>body URL. body @ checklistLine checked URL) issueBody sortedList"

text \<open>The function passed to \<^verbatim>\<open>then\<close>: it returns the body or throws.\<close>

definition composeBody ::
  "string \<Rightarrow> string list \<Rightarrow> string list \<Rightarrow> string list \<Rightarrow> string list \<Rightarrow> string
   \<Rightarrow> js_error + string" where
  "composeBody tag0 PRList0 verifiedPRList deployBlockers0 resolvedDeployBlockers comparisonURL0 =
     (case sortBy (unique PRList0) getPullRequestNumberFromURL of
        Inl exception \<Rightarrow> Inl exception
      | Inr sortedPRList \<Rightarrow>
     (case sortBy (unique deployBlockers0) getIssueOrPullRequestNumberFromURL of
        Inl exception \<Rightarrow> Inl exception
      | Inr sortedDeployBlockers \<Rightarrow>
          (let issueBody = ''**Release Version:** '' @ tag0 @ [CR, LF];
               issueBody = issueBody @ ''**Compare Changes:** '' @ comparisonURL0 @ [CR, LF];
               issueBody =
                 (if PRList0 \<noteq> []
                  then appendItems verifiedPRList sortedPRList
                         (issueBody
                          @ ''**This release contains changes from the following pull requests:**''
                          @ [CR, LF])
                  else issueBody);
               issueBody =
                 (if deployBlockers0 \<noteq> []
                  then appendItems resolvedDeployBlockers sortedDeployBlockers
                         (issueBody @ [CR, LF] @ ''**Deploy Blockers:**'' @ [CR, LF])
                  else issueBody)
           in Inr issueBody)))"

text \<open>
  The promise the function returns, and what it wrote with \<^verbatim>\<open>console.warn\<close>. The
  \<^verbatim>\<open>catch\<close> handler returns what \<^verbatim>\<open>console.warn\<close> returns, \<^verbatim>\<open>undefined\<close>: the promise is
  then resolved with \<^verbatim>\<open>undefined\<close> (\<open>None\<close>) in place of a body.
\<close>

type_synonym console = "(string \<times> js_error) list"

definition generateStagingDeployCashBody ::
  "(string option \<Rightarrow> string option \<Rightarrow> js_error + string list) \<Rightarrow> string \<Rightarrow> string list
   \<Rightarrow> string list \<Rightarrow> string list \<Rightarrow> string list \<Rightarrow> string option promise \<times> console" where
  "generateStagingDeployCashBody listTags tag0 PRList0 verifiedPRList deployBlockers0
     resolvedDeployBlockers =
     (case generateVersionComparisonURL listTags (GITHUB_OWNER @ ''/'' @ EXPENSIFY_CASH_REPO)
             tag0 ''BUILD'' of
        Pending \<Rightarrow> (Pending, [])
      | Rejected err \<Rightarrow>
          (Resolved None, [(''Error generating comparison URL, continuing...'', err)])
      | Resolved comparisonURL0 \<Rightarrow>
          (case composeBody tag0 PRList0 verifiedPRList deployBlockers0 resolvedDeployBlockers
                  comparisonURL0 of
             Inl err \<Rightarrow>
               (Resolved None, [(''Error generating comparison URL, continuing...'', err)])
           | Inr issueBody \<Rightarrow> (Resolved (Some issueBody), [])))"

section \<open>Properties of the helpers of the encoder\<close>

lemma set_unique_from: "set (unique_from result xs) = set result \<union> set xs"
  by (induction xs arbitrary: result) auto


lemma set_unique: "set (unique xs) = set xs"
  by (simp add: unique_def set_unique_from)


lemma criteria_Inr: "criteria f xs = Inr cs \<Longrightarrow> map f xs = map Inr cs"
  by (induction xs arbitrary: cs) (auto split: sum.splits)

lemma sortBy_Inr:
  assumes "sortBy xs f = Inr ys"
  shows "set ys = set xs \<and> (distinct xs \<longrightarrow> distinct ys)
         \<and> (\<exists>ks. map f ys = map Inr ks \<and> sorted ks)"
proof -
  from assms obtain cs where cs: "criteria f xs = Inr cs"
    and ys: "ys = map fst (sort_key snd (zip xs cs))"
    by (auto simp: sortBy_def split: sum.splits)
  from criteria_Inr[OF cs] have m: "map f xs = map Inr cs" .
  then have len: "length xs = length cs" by (metis length_map)
  have key: "f (fst z) = Inr (snd z)" if "z \<in> set (zip xs cs)" for z
  proof -
    from that obtain i where "i < length xs" "z = (xs ! i, cs ! i)"
      by (auto simp: in_set_zip len)
    with m len show ?thesis by (metis fst_conv snd_conv nth_map)
  qed
  have 1: "set ys = set xs"
  proof -
    have "set ys = fst ` set (zip xs cs)" by (simp add: ys)
    also have "\<dots> = set (map fst (zip xs cs))" by simp
    also have "\<dots> = set xs" using len by simp
    finally show ?thesis .
  qed
  have 2: "distinct ys" if "distinct xs"
  proof -
    from that len have "distinct (map fst (zip xs cs))" by simp
    then have "distinct (zip xs cs)" "inj_on fst (set (zip xs cs))"
      by (simp_all add: distinct_map)
    then show ?thesis by (simp add: ys distinct_map)
  qed
  have 3: "map f ys = map Inr (map snd (sort_key snd (zip xs cs)))"
    by (simp add: ys key)
  have 4: "sorted (map snd (sort_key snd (zip xs cs)))"
    by (rule sorted_sort_key)
  from 1 2 3 4 show ?thesis by blast
qed

lemma appendItems_concat:
  "appendItems checked sortedList issueBody
   = issueBody @ concat (map (checklistLine checked) sortedList)"
  unfolding appendItems_def by (induction sortedList arbitrary: issueBody) simp_all

section \<open>Properties of the matcher\<close>

text \<open>
  The equation of \<open>*\<close> is applied by hand, and so are those of \<open>str\<close> and of the
  enumeration of matches.
\<close>

lemmas ms_Star = ms.simps(7)

declare ms.simps(7) [simp del]

declare rx_matches.simps [simp del]

lemma ms_Seq_Nil: "ms r1 st = [] \<Longrightarrow> ms (Seq r1 r2) st = []"
  by simp

lemma ms_Seq_Cons: "ms r1 st = st1 # sts \<Longrightarrow> ms (Seq r1 r2) st = ms r2 st1 @ concat (map (ms r2) sts)"
  by simp

lemma ms_Seq_single: "ms r1 st = [st1] \<Longrightarrow> ms (Seq r1 r2) st = ms r2 st1"
  by simp

lemma ms_str: "ms (str w) (s, c) = (if take (length w) s = w then [(drop (length w) s, c)] else [])"
proof (induction w arbitrary: s)
  case Nil
  then show ?case by simp
next
  case (Cons x xs)
  show ?case
  proof (cases s)
    case Nil
    then show ?thesis by simp
  next
    case (Cons y ys)
    then show ?thesis using Cons.IH[of ys] by simp
  qed
qed

lemma ms_str_append: "ms (str w) (w @ s, c) = [(s, c)]"
  by (simp add: ms_str)

text \<open>
  The first result of a sequence comes from a result of its left part that the right part
  can continue.
\<close>

lemma ms_Seq_first:
  assumes "ms (Seq r1 r2) st = st' # sts"
  shows "\<exists>st1 sts'. st1 \<in> set (ms r1 st) \<and> ms r2 st1 = st' # sts'"
proof -
  have "\<exists>x sts'. x \<in> set xs \<and> f x = st' # sts'" if "concat (map f xs) = st' # sts" for f and xs :: "mstate list"
    using that
  proof (induction xs)
    case Nil
    then show ?case by simp
  next
    case (Cons a xs)
    show ?case
    proof (cases "f a")
      case Nil
      with Cons.prems have "concat (map f xs) = st' # sts" by simp
      from Cons.IH[OF this] show ?thesis by auto
    next
      case (Cons b bs)
      with Cons.prems have "f a = st' # bs" by simp
      then show ?thesis by (intro exI[of _ a] exI[of _ bs]) simp
    qed
  qed
  from this[of "ms r2" "ms r1 st"] assms show ?thesis by simp
qed

text \<open>
  A pattern is \<open>lineal\<close> when it cannot read a line terminator (and does not ask for the
  end of the text): what it matches lies within one line.
\<close>

fun lineal :: "rx \<Rightarrow> bool" where
  "lineal Eps = True"
| "lineal (Lit a) = (\<not> isLineTerminator a)"
| "lineal Dot = True"
| "lineal (Cls cs) = list_all (\<lambda>ch. \<not> isLineTerminator ch) cs"
| "lineal (Seq r1 r2) = (lineal r1 \<and> lineal r2)"
| "lineal (Alt r1 r2) = (lineal r1 \<and> lineal r2)"
| "lineal (Star r) = lineal r"
| "lineal (Grp i r) = lineal r"
| "lineal Eos = False"

text \<open>A text without line terminator.\<close>

definition lineText :: "string \<Rightarrow> bool" where
  "lineText u = list_all (\<lambda>ch. \<not> isLineTerminator ch) u"

lemma lineal_consumes:
  "lineal r \<Longrightarrow> st' \<in> set (ms r st) \<Longrightarrow> \<exists>u. fst st = u @ fst st' \<and> lineText u"
proof (induction r st arbitrary: st' rule: ms.induct)
  case (5 r1 r2 st)
  from "5.prems" obtain st1 where st1: "st1 \<in> set (ms r1 st)" and st': "st' \<in> set (ms r2 st1)"
    by auto
  from "5.IH"(1)[OF _ st1] "5.prems" obtain u where "fst st = u @ fst st1" "lineText u" by auto
  moreover from "5.IH"(2)[OF st1 _ st'] "5.prems" obtain v where "fst st1 = v @ fst st'" "lineText v" by auto
  ultimately have "fst st = (u @ v) @ fst st'" "lineText (u @ v)" by (simp_all add: lineText_def)
  then show ?case by blast
next
  case (7 r s c)
  show ?case
  proof (cases "st' = (s, c)")
    case True
    then show ?thesis by (simp add: lineText_def)
  next
    case False
    with "7.prems" obtain st1 where st1: "st1 \<in> set (ms r (s, c))"
      and lt: "length (fst st1) < length s" and st': "st' \<in> set (ms (Star r) st1)"
      by (auto simp: ms_Star split: if_splits)
    from "7.IH"(1)[OF _ st1] "7.prems" obtain u where "s = u @ fst st1" "lineText u" by auto
    moreover from "7.IH"(2)[OF st1 lt _ st'] "7.prems" obtain v where "fst st1 = v @ fst st'" "lineText v" by auto
    ultimately have "s = (u @ v) @ fst st'" "lineText (u @ v)" by (simp_all add: lineText_def)
    then show ?thesis by auto
  qed
qed (auto simp: lineText_def list_all_iff split: list.splits if_splits)

lemma ms_Star_Dot_first:
  "\<exists>sts. ms (Star Dot) (s, c) = (dropWhile (\<lambda>ch. \<not> isLineTerminator ch) s, c) # sts"
proof (induction s)
  case Nil
  then show ?case by (simp add: ms_Star)
next
  case (Cons x xs)
  then show ?case by (cases "isLineTerminator x") (auto simp: ms_Star[of Dot "x # xs"])
qed

text \<open>A position at the end of a line: the text is over or a line terminator comes next.\<close>

definition atEol :: "string \<Rightarrow> bool" where
  "atEol s = (case s of [] \<Rightarrow> True | ch # _ \<Rightarrow> isLineTerminator ch)"

lemma atEol_dropWhile: "atEol (dropWhile (\<lambda>ch. \<not> isLineTerminator ch) s)"
  by (induction s) (auto simp: atEol_def)

lemma seqs_Star_Dot_first_atEol:
  "ms (seqs (rs @ [Star Dot])) st = st' # sts \<Longrightarrow> atEol (fst st')"
proof (induction rs arbitrary: st st' sts)
  case Nil
  obtain s c where st: "st = (s, c)" by (cases st)
  from ms_Star_Dot_first[of s c] obtain sts' where "ms (Star Dot) (s, c) = (dropWhile (\<lambda>ch. \<not> isLineTerminator ch) s, c) # sts'" by blast
  with Nil st have "st' = (dropWhile (\<lambda>ch. \<not> isLineTerminator ch) s, c)" by simp
  then show ?case by (simp add: atEol_dropWhile)
next
  case (Cons r rs)
  then have "ms (Seq r (seqs (rs @ [Star Dot]))) st = st' # sts" by simp
  from ms_Seq_first[OF this] obtain st1 sts' where "ms (seqs (rs @ [Star Dot])) st1 = st' # sts'" by blast
  from Cons.IH[OF this] show ?case .
qed

lemma rx_matches_mem:
  "m \<in> set (rx_matches r s) \<Longrightarrow> \<exists>s0 s1 pre rest. s = s0 @ s1 \<and> rx_exec r s1 = Some (pre, m, rest)"
proof (induction r s rule: rx_matches.induct)
  case (1 r s)
  have "rx_exec r s \<noteq> None"
  proof
    assume "rx_exec r s = None"
    then have "rx_matches r s = []" by (subst rx_matches.simps) simp
    with "1.prems" show False by simp
  qed
  then obtain pre m' rest where ex: "rx_exec r s = Some (pre, m', rest)"
    by (cases "rx_exec r s") auto
  from rx_exec_split[OF ex] have s: "s = pre @ fst m' @ rest" .
  show ?case
  proof (cases "m = m'")
    case True
    have "s = [] @ s" by simp
    with ex True show ?thesis by blast
  next
    case False
    show ?thesis
    proof (cases "fst m' = []")
      case True
      with False "1.prems" ex obtain x xs where rest: "rest = x # xs" and mem: "m \<in> set (rx_matches r xs)"
        by (subst (asm) rx_matches.simps) (auto split: list.splits)
      from "1.IH"(1)[OF ex refl refl True rest mem] obtain s0 s1 pre' rest'
        where "xs = s0 @ s1" "rx_exec r s1 = Some (pre', m, rest')" by blast
      with s rest have "s = (pre @ fst m' @ x # s0) @ s1" by simp
      with \<open>rx_exec r s1 = Some (pre', m, rest')\<close> show ?thesis by blast
    next
      case nonempty: False
      with False "1.prems" ex have mem: "m \<in> set (rx_matches r rest)"
        by (subst (asm) rx_matches.simps) auto
      from "1.IH"(2)[OF ex refl refl nonempty mem] obtain s0 s1 pre' rest'
        where "rest = s0 @ s1" "rx_exec r s1 = Some (pre', m, rest')" by blast
      with s have "s = (pre @ fst m' @ s0) @ s1" by simp
      with \<open>rx_exec r s1 = Some (pre', m, rest')\<close> show ?thesis by blast
    qed
  qed
qed

lemma rx_exec_ms:
  "rx_exec r s = Some (pre, m, rest) \<Longrightarrow>
   \<exists>s2 st sts. s = pre @ s2 \<and> ms r (s2, []) = st # sts \<and> m = mk_match r s2 st \<and> rest = fst st"
proof (induction s arbitrary: pre)
  case Nil
  then show ?case by (auto split: list.splits)
next
  case (Cons x xs)
  show ?case
  proof (cases "ms r (x # xs, [])")
    case Nil
    with Cons.prems obtain pre' where ex: "rx_exec r xs = Some (pre', m, rest)" and pre: "pre = x # pre'"
      by (auto split: option.splits)
    from Cons.IH[OF ex] pre show ?thesis by auto
  next
    case (Cons st sts)
    with Cons.prems have "x # xs = pre @ (x # xs)" "ms r (x # xs, []) = st # sts"
      "m = mk_match r (x # xs) st" "rest = fst st" by auto
    then show ?thesis by blast
  qed
qed

lemma ms_Seq_Eps: "ms (Seq r Eps) st = ms r st"
proof -
  have "ms Eps = (\<lambda>st. [st])" by (rule ext) simp
  then show ?thesis by simp
qed

declare str.simps [simp del]

lemma ms_Seq_str:
  "ms (Seq (str w) r) (s, c) = (if take (length w) s = w then ms r (drop (length w) s, c) else [])"
  by (simp add: ms_str)

lemma ms_Seq_str_append: "ms (Seq (str w) r) (w @ s, c) = ms r (s, c)"
  by (simp add: ms_str)

lemma ms_Seq_str_first:
  assumes "ms (Seq (str w) r) (s, c) = st # sts"
  shows "\<exists>s'. s = w @ s' \<and> ms r (s', c) = st # sts"
proof -
  from assms have "take (length w) s = w" "ms r (drop (length w) s, c) = st # sts"
    unfolding ms_Seq_str by (simp_all split: if_splits)
  moreover have "s = take (length w) s @ drop (length w) s" by simp
  ultimately show ?thesis by metis
qed

lemma ms_Seq_str_mem:
  assumes "st \<in> set (ms (Seq (str w) r) (s, c))"
  shows "\<exists>s'. s = w @ s' \<and> st \<in> set (ms r (s', c))"
proof -
  from assms have "take (length w) s = w" "st \<in> set (ms r (drop (length w) s, c))"
    unfolding ms_Seq_str by (simp_all split: if_splits)
  moreover have "s = take (length w) s @ drop (length w) s" by simp
  ultimately show ?thesis by metis
qed

lemma ms_Seq_Cls_first:
  assumes "ms (Seq (Cls cs) r) (s, c) = st # sts"
  shows "\<exists>x s'. s = x # s' \<and> x \<in> set cs \<and> ms r (s', c) = st # sts"
  using assms by (cases s) (auto split: if_splits)

lemma ms_Seq_Lit_first:
  assumes "ms (Seq (Lit a) r) (s, c) = st # sts"
  shows "\<exists>s'. s = a # s' \<and> ms r (s', c) = st # sts"
  using assms by (cases s) (auto split: if_splits)

lemma ms_Seq_Lit_Cons: "ms (Seq (Lit a) r) (x # s, c) = (if x = a then ms r (s, c) else [])"
  by simp

lemma concat_map_concat:
  "concat (map g (concat (map f xs))) = concat (map (\<lambda>x. concat (map g (f x))) xs)"
  by (induction xs) simp_all

lemma ms_Seq_assoc: "ms (Seq (Seq r1 r2) r3) st = ms (Seq r1 (Seq r2 r3)) st"
proof -
  have "ms (Seq r2 r3) = (\<lambda>x. concat (map (ms r3) (ms r2 x)))" by (rule ext) simp
  then show ?thesis by (simp add: concat_map_concat)
qed

lemma lineal_str [simp]: "lineal (str w) = lineText w"
  by (induction w) (simp_all add: lineText_def str.simps)

lemma lineal_url: "lineal (ISSUE_OR_PULL_REQUEST_REGEX_source g)"
  by (simp add: ISSUE_OR_PULL_REQUEST_REGEX_source_def GITHUB_BASE_URL_REGEX_def Plus_def Opt_def
        digit_def isLineTerminator_def lineText_def)

lemma url_first:
  assumes "ms (ISSUE_OR_PULL_REQUEST_REGEX_source g) (s, c) = st' # sts"
  shows "atEol (fst st') \<and> (\<exists>w. s = ''http'' @ w @ fst st' \<and> lineText w)"
proof -
  let ?U = "ISSUE_OR_PULL_REQUEST_REGEX_source g"
  have shape: "?U = seqs ([GITHUB_BASE_URL_REGEX, Lit CHR ''/'', Star Dot, Lit CHR ''/'', Star Dot,
           Lit CHR ''/'', Alt (str ''pull'') (str ''issues''), Lit CHR ''/'',
           Grp g (Plus digit)] @ [Star Dot])"
    by (simp add: ISSUE_OR_PULL_REQUEST_REGEX_source_def)
  from assms have eol: "atEol (fst st')"
    unfolding shape by (rule seqs_Star_Dot_first_atEol)
  from assms have mem: "st' \<in> set (ms ?U (s, c))" by simp
  from lineal_consumes[OF lineal_url mem] obtain u where u: "s = u @ fst st'" "lineText u" by auto
  obtain Rest where U: "ms ?U (s, c) = ms (Seq (str ''http'') Rest) (s, c)"
  proof
    show "ms ?U (s, c) = ms (Seq (str ''http'')
        (Seq (seqs [Opt (Lit CHR ''s''), str ''://'', Alt (str ''github.com'') (str ''api.github.com'')])
          (seqs [Lit CHR ''/'', Star Dot, Lit CHR ''/'', Star Dot,
           Lit CHR ''/'', Alt (str ''pull'') (str ''issues''), Lit CHR ''/'',
           Grp g (Plus digit), Star Dot]))) (s, c)"
      unfolding ISSUE_OR_PULL_REQUEST_REGEX_source_def GITHUB_BASE_URL_REGEX_def seqs.simps
      by (simp only: ms_Seq_assoc)
  qed
  from mem have "st' \<in> set (ms (Seq (str ''http'') Rest) (s, c))"
    unfolding U .
  from ms_Seq_str_mem[OF this] obtain s4 where s4: "s = ''http'' @ s4" and "st' \<in> set (ms Rest (s4, c))"
    by blast
  from ms_suffix[OF this(2)] obtain v where v: "s4 = v @ fst st'" by auto
  with s4 have s: "s = ''http'' @ v @ fst st'" by simp
  with u have "u = ''http'' @ v" by simp
  with u have "lineText v" by (simp add: lineText_def)
  with eol s show ?thesis by blast
qed

lemma take_consumed: "s = u @ v \<Longrightarrow> take (length s - length v) s = u"
  by simp

lemma ms_Grp_first:
  assumes "ms (Grp i r) (s, c) = st # sts"
  shows "\<exists>st' sts'. ms r (s, c) = st' # sts'
           \<and> st = (fst st', (i, take (length s - length (fst st')) s) # snd st')"
  using assms by (cases "ms r (s, c)") auto

lemma checklistItem_first:
  assumes "ms checklistItemRegex (s, []) = st # sts"
  shows "\<exists>b w. s = ''- ['' @ [b] @ ''] '' @ (''http'' @ w) @ fst st
           \<and> (b = CHR '' '' \<or> b = CHR ''x'')
           \<and> map_of (snd st) 1 = Some (''http'' @ w) \<and> lineText w \<and> atEol (fst st)"
proof -
  let ?U = "ISSUE_OR_PULL_REQUEST_REGEX_source 2"
  have CI: "checklistItemRegex = Seq (str ''- ['') (Seq (Cls '' x'') (Seq (str ''] '') (Seq (Grp 1 ?U) Eps)))"
    by (simp add: checklistItemRegex_def)
  from assms have 0: "ms (Seq (str ''- ['') (Seq (Cls '' x'') (Seq (str ''] '') (Seq (Grp 1 ?U) Eps)))) (s, []) = st # sts"
    unfolding CI .
  from ms_Seq_str_first[OF 0] obtain s1 where 1: "s = ''- ['' @ s1"
    and 2: "ms (Seq (Cls '' x'') (Seq (str ''] '') (Seq (Grp 1 ?U) Eps))) (s1, []) = st # sts" by blast
  from ms_Seq_Cls_first[OF 2] obtain b s2 where 3: "s1 = b # s2" and b: "b = CHR '' '' \<or> b = CHR ''x''"
    and 4: "ms (Seq (str ''] '') (Seq (Grp 1 ?U) Eps)) (s2, []) = st # sts" by auto
  from ms_Seq_str_first[OF 4] obtain s3 where 5: "s2 = ''] '' @ s3" and 6: "ms (Grp 1 ?U) (s3, []) = st # sts"
    unfolding ms_Seq_Eps by blast
  from ms_Grp_first[OF 6] obtain st' sts' where 7: "ms ?U (s3, []) = st' # sts'"
    and st: "st = (fst st', (1, take (length s3 - length (fst st')) s3) # snd st')"
    by blast
  from url_first[OF 7] obtain w where eol: "atEol (fst st')" and w: "s3 = ''http'' @ w @ fst st'" "lineText w"
    by blast
  have s: "s = ''- ['' @ [b] @ ''] '' @ (''http'' @ w) @ fst st'"
    unfolding 1 3 5 by (subst w) simp
  from w have "s3 = (''http'' @ w) @ fst st'" by simp
  then have cap: "take (length s3 - length (fst st')) s3 = ''http'' @ w"
    by (rule take_consumed)
  from s b st cap w eol show ?thesis by auto
qed

lemma group1_checklistItem:
  "group (mk_match checklistItemRegex s st) 1 = map_of (snd st) 1"
  by (simp add: group_def mk_match_def checklistItemRegex_def ISSUE_OR_PULL_REQUEST_REGEX_source_def
        GITHUB_BASE_URL_REGEX_def Plus_def Opt_def digit_def upt_rec)

text \<open>
  Every entry that \<^verbatim>\<open>matchAll\<close> takes from a section with the pattern of a checklist item
  follows a box, begins with \<^verbatim>\<open>http\<close>, holds no line terminator and runs to the end of its
  line.
\<close>

lemma entry_is_rest_of_line:
  assumes "entry \<in> set (matchAll_group1 section0 checklistItemRegex)"
  shows "\<exists>before b w after.
           section0 = before @ (''- ['' @ [b] @ ''] '') @ (''http'' @ w) @ after
           \<and> (b = CHR '' '' \<or> b = CHR ''x'')
           \<and> entry = Some (''http'' @ w) \<and> lineText w \<and> atEol after"
proof -
  from assms obtain m where m: "m \<in> set (rx_matches checklistItemRegex section0)" and e: "entry = group m 1"
    by (auto simp: matchAll_group1_def)
  from rx_matches_mem[OF m] obtain s0 s1 pre rest where s0: "section0 = s0 @ s1"
    and ex: "rx_exec checklistItemRegex s1 = Some (pre, m, rest)" by blast
  from rx_exec_ms[OF ex] obtain s2 st sts where s1: "s1 = pre @ s2"
    and first: "ms checklistItemRegex (s2, []) = st # sts"
    and mm: "m = mk_match checklistItemRegex s2 st" by blast
  from checklistItem_first[OF first] obtain b w where
    s2: "s2 = ''- ['' @ [b] @ ''] '' @ (''http'' @ w) @ fst st"
    and b: "b = CHR '' '' \<or> b = CHR ''x''"
    and cap: "map_of (snd st) 1 = Some (''http'' @ w)" and w: "lineText w" and eol: "atEol (fst st)"
    by blast
  have "section0 = (s0 @ pre) @ (''- ['' @ [b] @ ''] '') @ (''http'' @ w) @ fst st"
    unfolding s0 s1 by (subst s2) simp
  moreover have "entry = Some (''http'' @ w)"
    unfolding e mm group1_checklistItem cap ..
  ultimately show ?thesis using b w eol by blast
qed














section \<open>The URL identifier parsers on the documented examples\<close>

text \<open>
  Claim C6. \<^verbatim>\<open>getPullRequestNumberFromURL\<close> returns 482 for
  \<^verbatim>\<open>https://github.com/Org/Repo/pull/482\<close>; \<^verbatim>\<open>getIssueNumberFromURL\<close> fails on the same URL
  with its error; \<^verbatim>\<open>getIssueOrPullRequestNumberFromURL\<close> returns 123 for a URL of a pull
  request and for a URL of an issue with that number.
\<close>

theorem url_parsers_examples:
  "getPullRequestNumberFromURL ''https://github.com/Org/Repo/pull/482'' = Inr (Finite 482)
   \<and> getIssueNumberFromURL ''https://github.com/Org/Repo/pull/482''
       = Inl (Error ''Provided URL https://github.com/Org/Repo/pull/482 is not a Github Issue!'')
   \<and> getIssueOrPullRequestNumberFromURL ''https://github.com/Org/Repo/pull/123'' = Inr (Finite 123)
   \<and> getIssueOrPullRequestNumberFromURL ''https://github.com/Org/Repo/issues/123'' = Inr (Finite 123)"
  by code_simp

section \<open>The version comparator\<close>

text \<open>
  Claim C9. With level PATCH, the anchor 2.3.5 and the tags 2.3.4, 2.3.6, 1.9.9 listed in
  that order, the comparator takes 2.3.4, the first listed tag below the anchor, and
  resolves with the comparison URL from 2.3.4 to 2.3.5.
\<close>

theorem patch_example_selects_first_lower_tag:
  "generateVersionComparisonURL (\<lambda>repoOwner repoName. Inr [''2.3.4'', ''2.3.6'', ''1.9.9''])
     ''Expensify/Expensify.cash'' ''2.3.5'' ''PATCH''
   = Resolved (getComparisonURL ''2.3.4'' ''2.3.5'')
   \<and> getComparisonURL ''2.3.4'' ''2.3.5''
       = ''https://github.com/Expensify/Expensify.cash/compare/2.3.4...2.3.5''"
  by code_simp

subsection \<open>What the range of level MINOR accepts\<close>

text \<open>
  The range \<^verbatim>\<open><M.m.x\<close> stands for the one comparator \<^verbatim>\<open><M.m.0-0\<close>. Nothing with the main
  version \<open>M.m.0\<close> is below the prerelease \<open>0\<close>, so a version is below it exactly by its
  main version.
\<close>

lemma comparePre_loop_zero_nonneg: "ps \<noteq> [] \<Longrightarrow> 0 \<le> comparePre_loop ps [NumId 0]"
proof (cases ps)
  case Nil
  then show "ps \<noteq> [] \<Longrightarrow> ?thesis" by simp
next
  case (Cons a as)
  show ?thesis
  proof (cases "a = NumId 0")
    case True
    with Cons show ?thesis by (cases as) simp_all
  next
    case False
    with Cons show ?thesis
      by (simp add: compareIdentifiers_def numeric_value_def split: option.splits)
  qed
qed

lemma compareMain_neg:
  "compareMain c b < 0 \<Longrightarrow> patch b = 0 \<Longrightarrow>
   major c < major b \<or> (major c = major b \<and> minor c < minor b)"
  by (auto simp: compareMain_def compareNumbers_def split: if_splits)

lemma lt_pre0:
  assumes "cmp c Op_lt (pre0 M m 0)"
  shows "major c < M \<or> (major c = M \<and> minor c < m)"
proof -
  from assms have neg: "compare c (pre0 M m 0) < 0" by (simp add: cmp_def)
  have pre: "0 \<le> comparePre c (pre0 M m 0)"
    using comparePre_loop_zero_nonneg[of "prerelease c"] by (simp add: comparePre_def pre0_def)
  from neg pre have "compareMain c (pre0 M m 0) < 0"
    by (auto simp: compare_def split: if_splits)
  from compareMain_neg[OF this] show ?thesis by (simp add: pre0_def)
qed

text \<open>
  Claim C1, as stated, fails: for the anchor 2.3.0 the range of level MINOR accepts the
  tag 1.9.9, whose major version is not the anchor's (and whose minor version is not
  lower).
\<close>

theorem minor_range_accepts_other_major:
  "semverSatisfies ''1.9.9'' (range_MINOR \<lparr> major = 2, minor = 3, patch = 0, prerelease = [] \<rparr>)
   \<and> semverParse ''1.9.9'' = Some \<lparr> major = 1, minor = 9, patch = 9, prerelease = [] \<rparr>
   \<and> \<not> (major \<lparr> major = 1, minor = 9, patch = 9, prerelease = [] \<rparr>
           = major \<lparr> major = 2, minor = 3, patch = 0, prerelease = [] \<rparr>
         \<and> minor \<lparr> major = 1, minor = 9, patch = 9, prerelease = [] \<rparr>
           < minor \<lparr> major = 2, minor = 3, patch = 0, prerelease = [] \<rparr>)"
  by code_simp

text \<open>
  Claim C1, amended. Every tag the range of level MINOR accepts is a version whose major
  version is lower than the anchor's, or equal to it with a strictly lower minor version
  (any patch).
\<close>

theorem minor_range_accepts_lower_major_minor:
  assumes "semverSatisfies repoTag (range_MINOR anchor)"
  shows "\<exists>c. semverParse repoTag = Some c
             \<and> (major c < major anchor \<or> (major c = major anchor \<and> minor c < minor anchor))"
proof (cases "semverParse repoTag")
  case None
  with assms show ?thesis by (simp add: semverSatisfies_def)
next
  case (Some c)
  with assms have "cmp c Op_lt (pre0 (major anchor) (minor anchor) 0)"
    by (simp add: semverSatisfies_def range_MINOR_def operator_of_def)
  from lt_pre0[OF this] Some show ?thesis by simp
qed

theorem minor_range_accepts_lower_major_minor_witness:
  "semverSatisfies ''2.2.9'' (range_MINOR \<lparr> major = 2, minor = 3, patch = 0, prerelease = [] \<rparr>)
   \<and> (\<exists>c. semverParse ''2.2.9'' = Some c
            \<and> (major c < major \<lparr> major = 2, minor = 3, patch = 0, prerelease = [] \<rparr>
                \<or> (major c = major \<lparr> major = 2, minor = 3, patch = 0, prerelease = [] \<rparr>
                    \<and> minor c < minor \<lparr> major = 2, minor = 3, patch = 0, prerelease = [] \<rparr>)))"
proof -
  have accepted:
    "semverSatisfies ''2.2.9'' (range_MINOR \<lparr> major = 2, minor = 3, patch = 0, prerelease = [] \<rparr>)"
    by code_simp
  from accepted minor_range_accepts_lower_major_minor[OF accepted] show ?thesis
    by (rule conjI)
qed

subsection \<open>A listing without an accepted tag\<close>

lemma someTag_Pending_iff:
  "someTag callback data = Pending \<longleftrightarrow> (\<forall>repoTag \<in> set data. callback repoTag = Inr None)"
  by (induction data) (auto split: sum.splits option.splits)

text \<open>
  When the listing arrives and the callback returns false on every tag of it, the promise
  is left unsettled: it is neither resolved nor rejected.
\<close>

lemma no_accepted_tag_never_settles:
  assumes "listTags (at_index (split_at CHR ''/'' repoSlug) 0) (at_index (split_at CHR ''/'' repoSlug) 1)
           = Inr data"
    and "\<forall>repoTag \<in> set data. tagCallback semverLevel (semverParse tag0) repoTag = Inr None"
  shows "generateVersionComparisonURL listTags repoSlug tag0 semverLevel = Pending"
  using assms by (simp add: generateVersionComparisonURL_def someTag_Pending_iff)

text \<open>
  Claim C3 asks for an explicit error when no tag of the listing is accepted. The code
  settles nothing: with level PATCH, the anchor 2.3.5 and the tags 2.3.6 and 3.0.0, and
  with an empty listing, the promise stays pending.
\<close>

theorem no_lower_tag_leaves_promise_pending:
  "generateVersionComparisonURL (\<lambda>repoOwner repoName. Inr [''2.3.6'', ''3.0.0''])
     ''Expensify/Expensify.cash'' ''2.3.5'' ''PATCH'' = Pending
   \<and> generateVersionComparisonURL (\<lambda>repoOwner repoName. Inr [])
       ''Expensify/Expensify.cash'' ''2.3.5'' ''BUILD'' = Pending"
  by code_simp

section \<open>Encoding when the comparison URL cannot be derived\<close>

text \<open>
  Claim C8. When the promise of \<^verbatim>\<open>generateVersionComparisonURL\<close> is rejected,
  \<^verbatim>\<open>generateStagingDeployCashBody\<close> passes no error on: it writes one warning, with the
  error, and its promise is resolved with \<^verbatim>\<open>undefined\<close> in place of a body.
\<close>

theorem rejected_comparison_is_logged_and_dropped:
  assumes "generateVersionComparisonURL listTags (GITHUB_OWNER @ ''/'' @ EXPENSIFY_CASH_REPO)
             tag0 ''BUILD'' = Rejected err"
  shows "generateStagingDeployCashBody listTags tag0 PRList0 verifiedPRList deployBlockers0
           resolvedDeployBlockers
         = (Resolved None, [(''Error generating comparison URL, continuing...'', err)])"
  using assms by (simp add: generateStagingDeployCashBody_def)

theorem rejected_comparison_is_logged_and_dropped_witness:
  "generateVersionComparisonURL (\<lambda>repoOwner repoName. Inl (GithubError ''Not Found''))
     (GITHUB_OWNER @ ''/'' @ EXPENSIFY_CASH_REPO) ''1.0.1-401'' ''BUILD''
   = Rejected (GithubError ''Not Found'')
   \<and> generateStagingDeployCashBody (\<lambda>repoOwner repoName. Inl (GithubError ''Not Found''))
       ''1.0.1-401'' [''https://github.com/Expensify/Expensify.cash/pull/21''] [] [] []
     = (Resolved None,
        [(''Error generating comparison URL, continuing...'', GithubError ''Not Found'')])"
proof -
  have rejected:
    "generateVersionComparisonURL (\<lambda>repoOwner repoName. Inl (GithubError ''Not Found''))
       (GITHUB_OWNER @ ''/'' @ EXPENSIFY_CASH_REPO) ''1.0.1-401'' ''BUILD''
     = Rejected (GithubError ''Not Found'')"
    by code_simp
  from rejected rejected_comparison_is_logged_and_dropped[OF rejected] show ?thesis
    by (rule conjI)
qed

section \<open>Decoding\<close>

text \<open>What a successful decoding went through, and what it returns.\<close>

lemma decode_Inr:
  assumes "getStagingDeployCashData issue = Inr result"
  shows "\<exists>body version0 versions comparisonURL0 comparisonURLs sectionMatch PRListSection blockerMatch
         deployBlockerSection.
         issue_body issue = Some body
         \<and> String_match_g body versionRegex = Some (version0, versions)
         \<and> String_match_g body compareURLRegex = Some (comparisonURL0, comparisonURLs)
         \<and> String_match body PRListSectionRegex = Some sectionMatch
         \<and> group sectionMatch 1 = Some PRListSection
         \<and> String_match body deployBlockerSectionRegex = Some blockerMatch
         \<and> group blockerMatch 1 = Some deployBlockerSection
         \<and> result
             = \<lparr> title = issue_title issue, url = issue_url issue, labels = issue_labels issue,
                 tag = filter (\<lambda>ch. ch \<noteq> CHR 0x60) version0,
                 comparisonURL = comparisonURL0,
                 PRList = matchAll_group1 PRListSection checklistItemRegex,
                 deployBlockers = matchAll_group1 deployBlockerSection checklistItemRegex \<rparr>"
  using assms
  by (auto simp: getStagingDeployCashData_def getStagingDeployCashData_try_def split: option.splits sum.splits)

text \<open>
  Claim C7. Decoding is all or nothing. Either the function throws its one error, or
  every step found what it looks for (the version, the comparison URL, the section of the
  pull requests and the section of the deploy blockers) and the result holds every field:
  the three fields of the issue and the four extracted ones. So a step that finds nothing
  leaves only the error.
\<close>

theorem decode_all_or_nothing:
  "getStagingDeployCashData issue = Inl MalformedChecklist
   \<or> (\<exists>body version0 versions comparisonURL0 comparisonURLs sectionMatch PRListSection blockerMatch
         deployBlockerSection.
         issue_body issue = Some body
         \<and> String_match_g body versionRegex = Some (version0, versions)
         \<and> String_match_g body compareURLRegex = Some (comparisonURL0, comparisonURLs)
         \<and> String_match body PRListSectionRegex = Some sectionMatch
         \<and> group sectionMatch 1 = Some PRListSection
         \<and> String_match body deployBlockerSectionRegex = Some blockerMatch
         \<and> group blockerMatch 1 = Some deployBlockerSection
         \<and> getStagingDeployCashData issue
             = Inr \<lparr> title = issue_title issue, url = issue_url issue, labels = issue_labels issue,
                     tag = filter (\<lambda>ch. ch \<noteq> CHR 0x60) version0,
                     comparisonURL = comparisonURL0,
                     PRList = matchAll_group1 PRListSection checklistItemRegex,
                     deployBlockers = matchAll_group1 deployBlockerSection checklistItemRegex \<rparr>)"
  by (auto simp: getStagingDeployCashData_def getStagingDeployCashData_try_def split: option.splits)

subsection \<open>A body without deploy blockers\<close>

text \<open>
  The body that \<^verbatim>\<open>generateStagingDeployCashBody\<close> composes for a release with one pull
  request and no deploy blocker, the arguments of \<^verbatim>\<open>createNewStagingDeployCash\<close>.
\<close>

definition body_without_blockers :: string where
  "body_without_blockers =
     ''**Release Version:** 1.0.1-401'' @ [CR, LF]
     @ ''**Compare Changes:** https://github.com/Expensify/Expensify.cash/compare/1.0.1-400...1.0.1-401''
     @ [CR, LF]
     @ ''**This release contains changes from the following pull requests:**'' @ [CR, LF]
     @ ''- [ ] https://github.com/Expensify/Expensify.cash/pull/21'' @ [CR, LF]"

lemma decode_without_version_fails:
  assumes "issue_body issue = Some body" and "String_match_g body versionRegex = None"
  shows "getStagingDeployCashData issue = Inl MalformedChecklist"
  using assms by (simp add: getStagingDeployCashData_def getStagingDeployCashData_try_def)

text \<open>
  Claim C2 takes the section of the deploy blockers for optional. The code does not: on
  the body above followed by the blank line that ends the section of the pull requests,
  the tag, the comparison URL and that section are found, the header of the deploy blockers
  is not, and decoding throws. (A body without a version is refused as the claim says.)
\<close>

theorem decode_requires_deploy_blockers_section:
  "String_match_g (body_without_blockers @ [CR, LF]) versionRegex
     = Some (''1.0.1-401'', [''1.0.1-400'', ''1.0.1-401''])
   \<and> String_match_g (body_without_blockers @ [CR, LF]) compareURLRegex
     = Some (''https://github.com/Expensify/Expensify.cash/compare/1.0.1-400...1.0.1-401'', [])
   \<and> map_option (\<lambda>m. group m 1) (String_match (body_without_blockers @ [CR, LF]) PRListSectionRegex)
     = Some (Some (''- [ ] https://github.com/Expensify/Expensify.cash/pull/21'' @ [CR, LF]))
   \<and> String_match (body_without_blockers @ [CR, LF]) deployBlockerSectionRegex = None
   \<and> getStagingDeployCashData
       \<lparr> issue_title = ''Deploy Checklist'', issue_url = ''https://api.github.com/issues/1'',
         issue_labels = [STAGING_DEPLOY_CASH_LABEL],
         issue_body = Some (body_without_blockers @ [CR, LF]) \<rparr>
     = Inl MalformedChecklist
   \<and> getStagingDeployCashData
       \<lparr> issue_title = ''Deploy Checklist'', issue_url = ''https://api.github.com/issues/1'',
         issue_labels = [STAGING_DEPLOY_CASH_LABEL], issue_body = Some ''No release here'' \<rparr>
     = Inl MalformedChecklist"
  by code_simp

section \<open>Encoding: the order of the rendered lists\<close>

lemma composeBody_Inr:
  assumes "composeBody tag0 PRList0 verifiedPRList deployBlockers0 resolvedDeployBlockers comparisonURL0
           = Inr issueBody"
  shows "\<exists>sortedPRList sortedDeployBlockers.
           sortBy (unique PRList0) getPullRequestNumberFromURL = Inr sortedPRList
         \<and> sortBy (unique deployBlockers0) getIssueOrPullRequestNumberFromURL = Inr sortedDeployBlockers
         \<and> issueBody =
             ''**Release Version:** '' @ tag0 @ [CR, LF]
             @ ''**Compare Changes:** '' @ comparisonURL0 @ [CR, LF]
             @ (if PRList0 \<noteq> []
                then ''**This release contains changes from the following pull requests:**'' @ [CR, LF]
                     @ concat (map (checklistLine verifiedPRList) sortedPRList)
                else [])
             @ (if deployBlockers0 \<noteq> []
                then [CR, LF] @ ''**Deploy Blockers:**'' @ [CR, LF]
                     @ concat (map (checklistLine resolvedDeployBlockers) sortedDeployBlockers)
                else [])"
proof -
  from assms obtain prs where prs: "sortBy (unique PRList0) getPullRequestNumberFromURL = Inr prs"
    unfolding composeBody_def by (cases "sortBy (unique PRList0) getPullRequestNumberFromURL") auto
  from assms prs obtain dbs where
    dbs: "sortBy (unique deployBlockers0) getIssueOrPullRequestNumberFromURL = Inr dbs"
    unfolding composeBody_def
    by (cases "sortBy (unique deployBlockers0) getIssueOrPullRequestNumberFromURL") auto
  from assms have "issueBody =
             ''**Release Version:** '' @ tag0 @ [CR, LF]
             @ ''**Compare Changes:** '' @ comparisonURL0 @ [CR, LF]
             @ (if PRList0 \<noteq> []
                then ''**This release contains changes from the following pull requests:**'' @ [CR, LF]
                     @ concat (map (checklistLine verifiedPRList) prs)
                else [])
             @ (if deployBlockers0 \<noteq> []
                then [CR, LF] @ ''**Deploy Blockers:**'' @ [CR, LF]
                     @ concat (map (checklistLine resolvedDeployBlockers) dbs)
                else [])"
    unfolding composeBody_def prs dbs appendItems_concat Let_def by (auto split: if_splits)
  with prs dbs show ?thesis by blast
qed









text \<open>
  The body composed for three pull requests given out of order, one of them twice, and two
  deploy blockers given out of order.
\<close>

definition body_with_blockers :: string where
  "body_with_blockers =
     ''**Release Version:** 1.0.1-401'' @ [CR, LF]
     @ ''**Compare Changes:** https://github.com/Expensify/Expensify.cash/compare/1.0.1-400...1.0.1-401''
     @ [CR, LF]
     @ ''**This release contains changes from the following pull requests:**'' @ [CR, LF]
     @ ''- [ ] https://github.com/Expensify/Expensify.cash/pull/21'' @ [CR, LF]
     @ ''- [x] https://github.com/Expensify/Expensify.cash/pull/22'' @ [CR, LF]
     @ [CR, LF]
     @ ''**Deploy Blockers:**'' @ [CR, LF]
     @ ''- [ ] https://github.com/Expensify/Expensify.cash/pull/3'' @ [CR, LF]
     @ ''- [ ] https://github.com/Expensify/Expensify.cash/issues/7'' @ [CR, LF]"


section \<open>Decoding: what an entry holds\<close>

text \<open>
  Claim C10. Every entry of \<open>PRList\<close> and of \<open>deployBlockers\<close> that decoding returns is
  taken from the text of one of the two sections, where it follows a box \<^verbatim>\<open>- [ ]\<close> or
  \<^verbatim>\<open>- [x]\<close> and a blank, begins with \<^verbatim>\<open>http\<close>, holds no line terminator and is followed by
  a line terminator or by the end of the section: it is the whole rest of the line from the
  URL on, whatever follows the URL on that line included.
\<close>

theorem decoded_entries_run_to_end_of_line:
  assumes "getStagingDeployCashData issue = Inr result"
    and "entry \<in> set (PRList result) \<union> set (deployBlockers result)"
  shows "\<exists>body sectionMatch section0 before b w after.
           issue_body issue = Some body
         \<and> (String_match body PRListSectionRegex = Some sectionMatch
              \<or> String_match body deployBlockerSectionRegex = Some sectionMatch)
         \<and> group sectionMatch 1 = Some section0
         \<and> section0 = before @ (''- ['' @ [b] @ ''] '') @ (''http'' @ w) @ after
         \<and> (b = CHR '' '' \<or> b = CHR ''x'')
         \<and> entry = Some (''http'' @ w) \<and> lineText w \<and> atEol after"
proof -
  from decode_Inr[OF assms(1)] obtain body sectionMatch PRListSection blockerMatch deployBlockerSection
    where body: "issue_body issue = Some body"
      and pr: "String_match body PRListSectionRegex = Some sectionMatch"
              "group sectionMatch 1 = Some PRListSection"
      and db: "String_match body deployBlockerSectionRegex = Some blockerMatch"
              "group blockerMatch 1 = Some deployBlockerSection"
      and prs: "PRList result = matchAll_group1 PRListSection checklistItemRegex"
      and dbs: "deployBlockers result = matchAll_group1 deployBlockerSection checklistItemRegex"
    by auto
  from assms(2) consider "entry \<in> set (matchAll_group1 PRListSection checklistItemRegex)"
    | "entry \<in> set (matchAll_group1 deployBlockerSection checklistItemRegex)"
    unfolding prs dbs by blast
  then show ?thesis
  proof cases
    case 1
    from entry_is_rest_of_line[OF 1] body pr show ?thesis by blast
  next
    case 2
    from entry_is_rest_of_line[OF 2] body db show ?thesis by blast
  qed
qed

text \<open>A checklist whose first item carries a remark after the URL.\<close>

definition body_with_remarks :: string where
  "body_with_remarks =
     ''**Release Version:** 1.0.1-401'' @ [CR, LF]
     @ ''**Compare Changes:** https://github.com/Expensify/Expensify.cash/compare/1.0.1-400...1.0.1-401''
     @ [CR, LF]
     @ ''**This release contains changes from the following pull requests:**'' @ [CR, LF]
     @ ''- [x] https://github.com/Expensify/Expensify.cash/pull/21 verified by QA'' @ [CR, LF]
     @ [CR, LF]
     @ ''**Deploy Blockers:**'' @ [CR, LF]
     @ ''- [ ] https://github.com/Expensify/Expensify.cash/issues/7'' @ [CR, LF]"

theorem decoded_entries_run_to_end_of_line_witness:
  "getStagingDeployCashData
       \<lparr> issue_title = ''Deploy Checklist'', issue_url = ''https://api.github.com/issues/1'',
         issue_labels = [STAGING_DEPLOY_CASH_LABEL], issue_body = Some body_with_remarks \<rparr>
     = Inr \<lparr> title = ''Deploy Checklist'', url = ''https://api.github.com/issues/1'',
             labels = [STAGING_DEPLOY_CASH_LABEL], tag = ''1.0.1-401'',
             comparisonURL = ''https://github.com/Expensify/Expensify.cash/compare/1.0.1-400...1.0.1-401'',
             PRList = [Some ''https://github.com/Expensify/Expensify.cash/pull/21 verified by QA''],
             deployBlockers = [Some ''https://github.com/Expensify/Expensify.cash/issues/7''] \<rparr>
   \<and> (\<exists>body sectionMatch section0 before b w after.
           issue_body \<lparr> issue_title = ''Deploy Checklist'',
                        issue_url = ''https://api.github.com/issues/1'',
                        issue_labels = [STAGING_DEPLOY_CASH_LABEL],
                        issue_body = Some body_with_remarks \<rparr> = Some body
         \<and> (String_match body PRListSectionRegex = Some sectionMatch
              \<or> String_match body deployBlockerSectionRegex = Some sectionMatch)
         \<and> group sectionMatch 1 = Some section0
         \<and> section0 = before @ (''- ['' @ [b] @ ''] '') @ (''http'' @ w) @ after
         \<and> (b = CHR '' '' \<or> b = CHR ''x'')
         \<and> Some ''https://github.com/Expensify/Expensify.cash/pull/21 verified by QA''
             = Some (''http'' @ w)
         \<and> lineText w \<and> atEol after)"
proof -
  have decoded:
    "getStagingDeployCashData
       \<lparr> issue_title = ''Deploy Checklist'', issue_url = ''https://api.github.com/issues/1'',
         issue_labels = [STAGING_DEPLOY_CASH_LABEL], issue_body = Some body_with_remarks \<rparr>
     = Inr \<lparr> title = ''Deploy Checklist'', url = ''https://api.github.com/issues/1'',
             labels = [STAGING_DEPLOY_CASH_LABEL], tag = ''1.0.1-401'',
             comparisonURL = ''https://github.com/Expensify/Expensify.cash/compare/1.0.1-400...1.0.1-401'',
             PRList = [Some ''https://github.com/Expensify/Expensify.cash/pull/21 verified by QA''],
             deployBlockers = [Some ''https://github.com/Expensify/Expensify.cash/issues/7''] \<rparr>"
    by code_simp
  have "Some ''https://github.com/Expensify/Expensify.cash/pull/21 verified by QA''
        \<in> set (PRList \<lparr> title = ''Deploy Checklist'', url = ''https://api.github.com/issues/1'',
             labels = [STAGING_DEPLOY_CASH_LABEL], tag = ''1.0.1-401'',
             comparisonURL = ''https://github.com/Expensify/Expensify.cash/compare/1.0.1-400...1.0.1-401'',
             PRList = [Some ''https://github.com/Expensify/Expensify.cash/pull/21 verified by QA''],
             deployBlockers = [Some ''https://github.com/Expensify/Expensify.cash/issues/7''] \<rparr>)
          \<union> set (deployBlockers \<lparr> title = ''Deploy Checklist'', url = ''https://api.github.com/issues/1'',
             labels = [STAGING_DEPLOY_CASH_LABEL], tag = ''1.0.1-401'',
             comparisonURL = ''https://github.com/Expensify/Expensify.cash/compare/1.0.1-400...1.0.1-401'',
             PRList = [Some ''https://github.com/Expensify/Expensify.cash/pull/21 verified by QA''],
             deployBlockers = [Some ''https://github.com/Expensify/Expensify.cash/issues/7''] \<rparr>)"
    by simp
  from decoded decoded_entries_run_to_end_of_line[OF decoded this] show ?thesis
    by (rule conjI)
qed

section \<open>The round trip of a checklist\<close>

subsection \<open>Patterns that stay on a line\<close>

lemma lineText_append [simp]: "lineText (u @ v) = (lineText u \<and> lineText v)"
  by (simp add: lineText_def)

lemma lineText_Nil [simp]: "lineText []"
  by (simp add: lineText_def)

lemma lineText_Cons [simp]: "lineText (x # u) = (\<not> isLineTerminator x \<and> lineText u)"
  by (simp add: lineText_def)

lemma lineText_suffix:
  assumes "lineText u" and "st' \<in> set (ms r (u, c))"
  shows "lineText (fst st')"
proof -
  from ms_suffix[OF assms(2)] obtain w where "u = w @ fst st'" by auto
  with assms(1) show ?thesis by (metis lineText_append)
qed

lemma atEol_Cons [simp]: "atEol (x # s) = isLineTerminator x"
  by (simp add: atEol_def)

lemma atEol_Nil [simp]: "atEol []"
  by (simp add: atEol_def)

lemma lineal_frame:
  "lineal r \<Longrightarrow> lineText u \<Longrightarrow> atEol v \<Longrightarrow>
   ms r (u @ v, c) = map (\<lambda>st'. (fst st' @ v, snd st')) (ms r (u, c))"
proof (induction r "(u, c)" arbitrary: u c rule: ms.induct)
  case 1
  then show ?case by simp
next
  case (2 a u c)
  then show ?case by (cases u; cases v) auto
next
  case (3 u c)
  then show ?case by (cases u; cases v) auto
next
  case (4 cs u c)
  then show ?case by (cases u; cases v) (auto simp: list_all_iff)
next
  case (5 r1 r2 u c)
  from "5.prems" have l1: "lineal r1" and l2: "lineal r2" by simp_all
  have 1: "ms r1 (u @ v, c) = map (\<lambda>st'. (fst st' @ v, snd st')) (ms r1 (u, c))"
    using "5.hyps"(1)[OF l1 "5.prems"(2,3)] .
  have 2: "ms r2 (fst st1 @ v, snd st1) = map (\<lambda>st'. (fst st' @ v, snd st')) (ms r2 st1)"
    if "st1 \<in> set (ms r1 (u, c))" for st1
    using "5.hyps"(2)[of "fst st1" "snd st1"] that l2 lineText_suffix[OF "5.prems"(2) that] "5.prems"(3)
    by simp
  have "ms (Seq r1 r2) (u @ v, c)
        = concat (map (\<lambda>st1. ms r2 (fst st1 @ v, snd st1)) (ms r1 (u, c)))"
    by (simp add: 1 comp_def)
  also have "\<dots> = concat (map (\<lambda>st1. map (\<lambda>st'. (fst st' @ v, snd st')) (ms r2 st1)) (ms r1 (u, c)))"
    using 2 by (metis (mono_tags, lifting) map_eq_conv)
  also have "\<dots> = map (\<lambda>st'. (fst st' @ v, snd st')) (ms (Seq r1 r2) (u, c))"
    by (simp add: map_concat comp_def)
  finally show ?case .
next
  case (6 r1 r2 u c)
  then show ?case by simp
next
  case (7 r u c)
  from "7.prems" have l: "lineal r" by simp
  have 1: "ms r (u @ v, c) = map (\<lambda>st'. (fst st' @ v, snd st')) (ms r (u, c))"
    using "7.hyps"(1)[OF l "7.prems"(2,3)] .
  have 2: "ms (Star r) (fst st1 @ v, snd st1) = map (\<lambda>st'. (fst st' @ v, snd st')) (ms (Star r) st1)"
    if "st1 \<in> set (ms r (u, c))" "length (fst st1) < length u" for st1
    using "7.hyps"(2)[of "fst st1" "snd st1"] that "7.prems"(1) lineText_suffix[OF "7.prems"(2) that(1)] "7.prems"(3)
    by simp
  have "ms (Star r) (u @ v, c)
        = concat (map (\<lambda>st1. if length (fst st1) < length u
                              then ms (Star r) (fst st1 @ v, snd st1) else []) (ms r (u, c)))
          @ [(u @ v, c)]"
    by (subst ms_Star) (simp add: 1 comp_def)
  also have "concat (map (\<lambda>st1. if length (fst st1) < length u
                              then ms (Star r) (fst st1 @ v, snd st1) else []) (ms r (u, c)))
        = concat (map (\<lambda>st1. map (\<lambda>st'. (fst st' @ v, snd st'))
                      (if length (fst st1) < length u then ms (Star r) st1 else [])) (ms r (u, c)))"
    by (rule arg_cong[where f=concat], rule map_cong[OF refl]) (simp add: 2)
  also have "\<dots> @ [(u @ v, c)] = map (\<lambda>st'. (fst st' @ v, snd st')) (ms (Star r) (u, c))"
    by (simp add: ms_Star[of r u c] map_concat comp_def)
  finally show ?case .
next
  case (8 i r u c)
  from "8.prems" have l: "lineal r" by simp
  have 1: "ms r (u @ v, c) = map (\<lambda>st'. (fst st' @ v, snd st')) (ms r (u, c))"
    using "8.hyps"[OF l "8.prems"(2,3)] .
  show ?case
    by (simp add: 1 comp_def)
next
  case (9 u c)
  then show ?case by simp
qed

subsection \<open>The match that is tried first\<close>

text \<open>
  \<open>first r st st'\<close>: the match of \<open>r\<close> from \<open>st\<close> that the search tries first is \<open>st'\<close>. It is
  the one a JavaScript engine reports.
\<close>

definition first :: "rx \<Rightarrow> mstate \<Rightarrow> mstate \<Rightarrow> bool" where
  "first r st st' = (case ms r st of [] \<Rightarrow> False | x # _ \<Rightarrow> x = st')"

lemma first_iff: "first r st st' \<longleftrightarrow> (\<exists>sts. ms r st = st' # sts)"
  by (auto simp: first_def split: list.splits)

lemma first_Seq: "first r1 st st1 \<Longrightarrow> first r2 st1 st2 \<Longrightarrow> first (Seq r1 r2) st st2"
  by (auto simp: first_iff)

lemma first_Eps: "first Eps st st"
  by (simp add: first_iff)

lemma first_Lit: "first (Lit a) (a # s, c) (s, c)"
  by (simp add: first_iff)

lemma first_str: "first (str w) (w @ s, c) (s, c)"
  by (simp add: first_iff ms_str)

lemma first_Grp:
  "first r (s, c) (s', c') \<Longrightarrow> first (Grp i r) (s, c) (s', (i, take (length s - length s') s) # c')"
  by (auto simp: first_iff)

lemma first_Alt1: "first r1 st st' \<Longrightarrow> first (Alt r1 r2) st st'"
  by (auto simp: first_iff)

lemma first_Alt2: "ms r1 st = [] \<Longrightarrow> first r2 st st' \<Longrightarrow> first (Alt r1 r2) st st'"
  by (auto simp: first_iff)

lemma first_seqs_Nil: "first (seqs []) st st"
  by (simp add: first_Eps)

lemma first_seqs_Cons: "first r st st1 \<Longrightarrow> first (seqs rs) st1 st2 \<Longrightarrow> first (seqs (r # rs)) st st2"
  by (simp add: first_Seq)

lemma first_Star_Cls:
  "first (Star (Cls cs)) (s, c) (dropWhile (\<lambda>ch. ch \<in> set cs) s, c)"
proof (induction s)
  case Nil
  then show ?case by (simp add: first_iff ms_Star)
next
  case (Cons x xs)
  then show ?case by (cases "x \<in> set cs") (auto simp: first_iff ms_Star[of _ "x # xs"])
qed

lemma dropWhile_members:
  "set xs \<subseteq> set cs \<Longrightarrow>
   dropWhile (\<lambda>ch. ch \<in> set cs) (xs @ ys) = dropWhile (\<lambda>ch. ch \<in> set cs) ys"
  by (induction xs) auto

text \<open>A non-empty run of digits, and a text that does not go on with a digit.\<close>

definition digitText :: "string \<Rightarrow> bool" where
  "digitText ds = (ds \<noteq> [] \<and> list_all isDigit ds)"

definition noDigitNext :: "string \<Rightarrow> bool" where
  "noDigitNext s = (case s of [] \<Rightarrow> True | ch # _ \<Rightarrow> \<not> isDigit ch)"

lemma first_Plus_digit:
  assumes "digitText ds" and "noDigitNext s"
  shows "first (Plus digit) (ds @ s, c) (s, c)"
proof -
  from assms(1) obtain d ds' where ds: "ds = d # ds'" and d: "isDigit d" and ds': "list_all isDigit ds'"
    by (cases ds) (auto simp: digitText_def)
  have 1: "first digit (ds @ s, c) (ds' @ s, c)"
    using d by (simp add: first_iff ds digit_def isDigit_def)
  have "dropWhile (\<lambda>ch. ch \<in> set ''0123456789'') (ds' @ s) = s"
  proof -
    from ds' have "set ds' \<subseteq> set ''0123456789''"
      unfolding list_all_iff isDigit_def by blast
    then have "dropWhile (\<lambda>ch. ch \<in> set ''0123456789'') (ds' @ s)
               = dropWhile (\<lambda>ch. ch \<in> set ''0123456789'') s"
      by (rule dropWhile_members)
    also from assms(2) have "\<dots> = s"
      unfolding noDigitNext_def isDigit_def by (cases s) simp_all
    finally show ?thesis .
  qed
  with first_Star_Cls[of "''0123456789''" "ds' @ s" c]
  have 2: "first (Star digit) (ds' @ s, c) (s, c)" by (simp add: digit_def)
  from first_Seq[OF 1 2] show ?thesis by (simp add: Plus_def)
qed

text \<open>The text of a version: three runs of digits and, optionally, a fourth after a hyphen.\<close>

definition versionString :: "string \<Rightarrow> string \<Rightarrow> string \<Rightarrow> string option \<Rightarrow> string" where
  "versionString d1 d2 d3 d4 =
     d1 @ ''.'' @ d2 @ ''.'' @ d3 @ (case d4 of None \<Rightarrow> [] | Some ds \<Rightarrow> ''-'' @ ds)"

definition versionDigits :: "string \<Rightarrow> string \<Rightarrow> string \<Rightarrow> string option \<Rightarrow> bool" where
  "versionDigits d1 d2 d3 d4 =
     (digitText d1 \<and> digitText d2 \<and> digitText d3
      \<and> (case d4 of None \<Rightarrow> True | Some ds \<Rightarrow> digitText ds))"

definition versionEnd :: "string \<Rightarrow> bool" where
  "versionEnd s = (case s of [] \<Rightarrow> True | ch # _ \<Rightarrow> \<not> isDigit ch \<and> ch \<noteq> CHR ''-'')"

lemma noDigitNext_simps [simp]:
  "noDigitNext []" "noDigitNext (ch # s) = (\<not> isDigit ch)"
  by (simp_all add: noDigitNext_def)

lemma first_version:
  assumes "versionDigits d1 d2 d3 d4" and "versionEnd s"
  shows "\<exists>c'. first (versionRegex_source g) (versionString d1 d2 d3 d4 @ s, c) (s, c')"
proof -
  from assms(1) have d: "digitText d1" "digitText d2" "digitText d3" by (simp_all add: versionDigits_def)
  have dot: "\<not> isDigit CHR ''.''" and dash: "\<not> isDigit CHR ''-''" by (simp_all add: isDigit_def)
  let ?tail = "(case d4 of None \<Rightarrow> [] | Some ds \<Rightarrow> ''-'' @ ds) @ s"
  have nd: "noDigitNext ?tail"
    using assms(2) dash by (cases d4; cases s) (simp_all add: versionEnd_def)
  have 1: "first (Grp g (Plus digit)) (versionString d1 d2 d3 d4 @ s, c)
             (''.'' @ d2 @ ''.'' @ d3 @ ?tail,
              (g, take (length (versionString d1 d2 d3 d4 @ s) - length (''.'' @ d2 @ ''.'' @ d3 @ ?tail))
                    (versionString d1 d2 d3 d4 @ s)) # c)" (is "first _ _ (_, ?c1)")
    using first_Grp[OF first_Plus_digit[OF d(1), of "''.'' @ d2 @ ''.'' @ d3 @ ?tail" c]] dot
    by (simp add: versionString_def)
  have 2: "first (Lit CHR ''.'') (''.'' @ d2 @ ''.'' @ d3 @ ?tail, ?c1) (d2 @ ''.'' @ d3 @ ?tail, ?c1)"
    by (simp add: first_iff)
  have 3: "first (Grp (g + 1) (Plus digit)) (d2 @ ''.'' @ d3 @ ?tail, ?c1)
             (''.'' @ d3 @ ?tail,
              (g + 1, take (length (d2 @ ''.'' @ d3 @ ?tail) - length (''.'' @ d3 @ ?tail)) (d2 @ ''.'' @ d3 @ ?tail)) # ?c1)"
    (is "first _ _ (_, ?c2)")
    using first_Grp[OF first_Plus_digit[OF d(2), of "''.'' @ d3 @ ?tail" ?c1]] dot
    by simp
  have 4: "first (Lit CHR ''.'') (''.'' @ d3 @ ?tail, ?c2) (d3 @ ?tail, ?c2)"
    by (simp add: first_iff)
  have 5: "first (Grp (g + 2) (Plus digit)) (d3 @ ?tail, ?c2)
             (?tail, (g + 2, take (length (d3 @ ?tail) - length ?tail) (d3 @ ?tail)) # ?c2)"
    (is "first _ _ (_, ?c3)")
    using first_Grp[OF first_Plus_digit[OF d(3) nd, of ?c2]] by simp
  have 6: "\<exists>c'. first (Opt (Seq (Lit CHR ''-'') (Grp (g + 3) (Plus digit)))) (?tail, ?c3) (s, c')"
  proof (cases d4)
    case None
    have "ms (Seq (Lit CHR ''-'') (Grp (g + 3) (Plus digit))) (s, ?c3) = []"
      using assms(2) by (cases s) (simp_all add: versionEnd_def)
    then have "first (Opt (Seq (Lit CHR ''-'') (Grp (g + 3) (Plus digit)))) (s, ?c3) (s, ?c3)"
      unfolding Opt_def by (rule first_Alt2) (rule first_Eps)
    with None show ?thesis by auto
  next
    case (Some ds)
    with assms(1) have ds: "digitText ds" by (simp add: versionDigits_def)
    from assms(2) have "noDigitNext s" by (cases s) (simp_all add: versionEnd_def)
    from first_Grp[OF first_Plus_digit[OF ds this, of ?c3], of "g + 3"]
    obtain c' where "first (Grp (g + 3) (Plus digit)) (ds @ s, ?c3) (s, c')" by blast
    with first_Lit[of "CHR ''-''" "ds @ s" ?c3]
    have "first (Seq (Lit CHR ''-'') (Grp (g + 3) (Plus digit))) (''-'' @ ds @ s, ?c3) (s, c')"
      by (auto intro: first_Seq)
    then have "first (Opt (Seq (Lit CHR ''-'') (Grp (g + 3) (Plus digit)))) (''-'' @ ds @ s, ?c3) (s, c')"
      unfolding Opt_def by (rule first_Alt1)
    with Some show ?thesis by auto
  qed
  then obtain c' where 6: "first (Opt (Seq (Lit CHR ''-'') (Grp (g + 3) (Plus digit)))) (?tail, ?c3) (s, c')"
    by blast
  have "first (versionRegex_source g) (versionString d1 d2 d3 d4 @ s, c) (s, c')"
    unfolding versionRegex_source_def
    by (intro first_seqs_Cons[OF 1] first_seqs_Cons[OF 2] first_seqs_Cons[OF 3] first_seqs_Cons[OF 4]
          first_seqs_Cons[OF 5] first_seqs_Cons[OF 6] first_seqs_Nil)
  then show ?thesis by blast
qed

subsection \<open>Searching past a prefix\<close>

text \<open>A match found in a suffix of the text, reported with the text before that suffix.\<close>

definition shift :: "string \<Rightarrow> (string \<times> match \<times> string) option \<Rightarrow> (string \<times> match \<times> string) option" where
  "shift P x = map_option (\<lambda>(pre, m, rest). (P @ pre, m, rest)) x"

lemma shift_Nil [simp]: "shift [] x = x"
  by (cases x) (auto simp: shift_def)

lemma shift_shift [simp]: "shift P (shift Q x) = shift (P @ Q) x"
  by (cases x) (auto simp: shift_def)

lemma shift_Some [simp]: "shift P (Some (pre, m, rest)) = Some (P @ pre, m, rest)"
  by (simp add: shift_def)

lemma rx_exec_skip_one: "ms r (x # s, []) = [] \<Longrightarrow> rx_exec r (x # s) = shift [x] (rx_exec r s)"
  by (cases "rx_exec r s") (auto simp: shift_def)

lemma rx_exec_here:
  assumes "first r (s, []) st"
  shows "rx_exec r s = Some ([], mk_match r s st, fst st)"
  using assms by (cases s) (auto simp: first_iff)

text \<open>No match starts inside a text none of whose characters can start one.\<close>

lemma rx_exec_skip_chars:
  assumes "\<And>x s'. x \<in> set P \<Longrightarrow> ms r (x # s', []) = []"
  shows "rx_exec r (P @ s) = shift P (rx_exec r s)"
  using assms
proof (induction P)
  case Nil
  then show ?case by simp
next
  case (Cons x P)
  have "rx_exec r (x # P @ s) = shift [x] (rx_exec r (P @ s))"
    by (rule rx_exec_skip_one) (simp add: Cons.prems)
  also have "rx_exec r (P @ s) = shift P (rx_exec r s)"
    by (rule Cons.IH) (simp add: Cons.prems)
  finally show ?case by simp
qed

text \<open>
  \<open>skips a b t\<close>: in \<open>t\<close> every \<open>a\<close> is followed by a character other than \<open>b\<close>. A pattern
  that asks for \<open>a\<close> and then \<open>b\<close> at some offset cannot match where the text denies it.
\<close>

fun skips :: "char \<Rightarrow> char \<Rightarrow> string \<Rightarrow> bool" where
  "skips a b [] = True"
| "skips a b [x] = (x \<noteq> a)"
| "skips a b (x # y # s) = ((x \<noteq> a \<or> y \<noteq> b) \<and> skips a b (y # s))"

lemma skips_tl: "skips a b (x # t) \<Longrightarrow> skips a b t"
  by (cases t) simp_all

lemma skips_nth:
  "skips a b t \<Longrightarrow> i < length t \<Longrightarrow> t ! i = a \<Longrightarrow> Suc i < length t \<and> t ! Suc i \<noteq> b"
proof (induction a b t arbitrary: i rule: skips.induct)
  case (1 a b)
  then show ?case by simp
next
  case (2 a b x)
  then show ?case by simp
next
  case (3 a b x y s)
  then show ?case by (cases i) auto
qed

lemma skips_append: "skips a b P \<Longrightarrow> skips a b Q \<Longrightarrow> skips a b (P @ Q)"
proof (induction a b P rule: skips.induct)
  case (1 a b)
  then show ?case by simp
next
  case (2 a b x)
  then show ?case by (cases Q) simp_all
next
  case (3 a b x y s)
  then show ?case by simp
qed

lemma skips_all: "\<forall>x \<in> set t. x \<noteq> a \<Longrightarrow> skips a b t"
  by (induction a b t rule: skips.induct) simp_all

lemma rx_exec_skip_pair:
  assumes force: "\<And>t c. ms r (t, c) \<noteq> [] \<Longrightarrow> Suc k < length t \<and> t ! k = a \<and> t ! Suc k = b"
    and sk: "skips a b (P @ take k s)" and len: "k \<le> length s"
  shows "rx_exec r (P @ s) = shift P (rx_exec r s)"
  using sk
proof (induction P)
  case Nil
  then show ?case by simp
next
  case (Cons x P)
  have "ms r (x # P @ s, []) = []"
  proof (rule ccontr)
    assume "ms r (x # P @ s, []) \<noteq> []"
    from force[OF this] have f: "(x # P @ s) ! k = a" "(x # P @ s) ! Suc k = b" by simp_all
    let ?T = "(x # P) @ take k s"
    have k: "k < length ?T" using len by simp
    have T: "?T ! i = (x # P @ s) ! i" if "i < length ?T" for i
    proof -
      have "x # P @ s = ?T @ drop k s" by simp
      then show ?thesis using that by (metis nth_append)
    qed
    from T[OF k] f(1) have "?T ! k = a" by simp
    from skips_nth[OF Cons.prems k this] have "Suc k < length ?T" "?T ! Suc k \<noteq> b" by simp_all
    with T[of "Suc k"] f(2) show False by simp
  qed
  then have "rx_exec r (x # P @ s) = shift [x] (rx_exec r (P @ s))"
    by (rule rx_exec_skip_one)
  also have "rx_exec r (P @ s) = shift P (rx_exec r s)"
    using Cons.prems by (intro Cons.IH) (auto dest: skips_tl)
  finally show ?case by simp
qed

lemma nonempty_mem: "xs \<noteq> [] \<Longrightarrow> \<exists>x. x \<in> set xs"
  by (cases xs) auto

lemma str_forces:
  assumes "ms (Seq (str w) R) (t, c) \<noteq> []" and "i < length w"
  shows "i < length t \<and> t ! i = w ! i"
proof -
  from nonempty_mem[OF assms(1)] obtain st where "st \<in> set (ms (Seq (str w) R) (t, c))" ..
  from ms_Seq_str_mem[OF this] obtain s' where "t = w @ s'" by blast
  with assms(2) show ?thesis by (simp add: nth_append)
qed

lemma rx_matches_shift:
  assumes "rx_exec r (P @ s) = shift P (rx_exec r s)"
  shows "rx_matches r (P @ s) = rx_matches r s"
  by (subst rx_matches.simps, subst (2) rx_matches.simps)
     (cases "rx_exec r s"; simp add: assms shift_def split: prod.splits)

subsection \<open>Sections of lines\<close>

text \<open>
  The line of the two section patterns, \<^verbatim>\<open>.*\r\n\<close>, and the text of a list of lines, each ended
  by the two characters.
\<close>

definition LINE :: rx where
  "LINE = seqs [Star Dot, Lit CR, Lit LF]"

definition crlfLines :: "string list \<Rightarrow> string" where
  "crlfLines ls = concat (map (\<lambda>l. l @ [CR, LF]) ls)"

lemma crlfLines_simps [simp]:
  "crlfLines [] = []" "crlfLines (l # ls) = l @ CR # LF # crlfLines ls"
  by (simp_all add: crlfLines_def)

lemma isLineTerminator_CR [simp]: "isLineTerminator CR"
  by (simp add: isLineTerminator_def)

lemma isLineTerminator_LF [simp]: "isLineTerminator LF"
  by (simp add: isLineTerminator_def)

lemma ms_LINE:
  "lineText l \<Longrightarrow> ms LINE (l @ CR # LF # s, c) = [(s, c)]"
proof (induction l)
  case Nil
  then show ?case by (simp add: LINE_def ms_Star)
next
  case (Cons x l)
  then have x: "\<not> isLineTerminator x" and l: "lineText l" by simp_all
  from x have xCR: "x \<noteq> CR" by auto
  have "ms (Star Dot) (x # l @ CR # LF # s, c)
        = ms (Star Dot) (l @ CR # LF # s, c) @ [(x # l @ CR # LF # s, c)]"
    using x by (simp add: ms_Star[of Dot "x # l @ CR # LF # s"])
  with Cons.IH[OF l] xCR show ?case by (simp add: LINE_def)
qed

lemma ms_LINE_Nil: "ms LINE ([], c) = []"
  by (simp add: LINE_def ms_Star)

lemma ms_Star_LINE_Nil: "ms (Star LINE) ([], c) = [([], c)]"
  by (simp add: ms_Star ms_LINE_Nil)

lemma ms_Star_LINE_Cons:
  "lineText l \<Longrightarrow>
   ms (Star LINE) (l @ CR # LF # s, c) = ms (Star LINE) (s, c) @ [(l @ CR # LF # s, c)]"
  by (simp add: ms_Star[of LINE "l @ CR # LF # s"] ms_LINE)

lemma ms_Plus_LINE_Cons:
  "lineText l \<Longrightarrow> ms (Plus LINE) (l @ CR # LF # s, c) = ms (Star LINE) (s, c)"
  by (simp add: Plus_def ms_LINE)

text \<open>A text that starts with a carriage return.\<close>

definition startsCR :: "string \<Rightarrow> bool" where
  "startsCR t = (case t of [] \<Rightarrow> False | x # _ \<Rightarrow> x = CR)"

lemma Star_LINE_noBlank:
  assumes "\<forall>l \<in> set ls. lineText l \<and> l \<noteq> []" and "st \<in> set (ms (Star LINE) (crlfLines ls, c))"
  shows "\<not> startsCR (fst st)"
  using assms
proof (induction ls)
  case Nil
  then show ?case by (simp add: ms_Star_LINE_Nil startsCR_def)
next
  case (Cons l ls)
  then have l: "lineText l" "l \<noteq> []" by simp_all
  from l obtain x l' where "l = x # l'" "\<not> isLineTerminator x" by (cases l) auto
  then have "l = x # l'" "x \<noteq> CR" by auto
  then have "\<not> startsCR (l @ CR # LF # crlfLines ls)" by (simp add: startsCR_def)
  with Cons show ?case by (auto simp: ms_Star_LINE_Cons[OF l(1)])
qed

lemma Star_LINE_append:
  assumes "\<forall>l \<in> set ls. lineText l"
  shows "\<exists>Y. ms (Star LINE) (crlfLines ls @ B, c) = ms (Star LINE) (B, c) @ Y"
  using assms
proof (induction ls)
  case Nil
  then show ?case by simp
next
  case (Cons l ls)
  then obtain Y where "ms (Star LINE) (crlfLines ls @ B, c) = ms (Star LINE) (B, c) @ Y" by auto
  with Cons.prems show ?case by (simp add: ms_Star_LINE_Cons)
qed

lemma first_Star_LINE:
  assumes "\<forall>l \<in> set ls. lineText l"
  shows "first (Star LINE) (crlfLines ls, c) ([], c)"
  using assms
proof (induction ls)
  case Nil
  then show ?case by (simp add: first_iff ms_Star_LINE_Nil)
next
  case (Cons l ls)
  then show ?case by (auto simp: first_iff ms_Star_LINE_Cons)
qed

text \<open>The greedy group of lines of the section of the deploy blockers takes all the lines.\<close>

lemma first_all_lines:
  assumes "ls \<noteq> []" and "\<forall>l \<in> set ls. lineText l"
  shows "first (Grp i (Plus LINE)) (crlfLines ls, c) ([], (i, crlfLines ls) # c)"
proof -
  from assms obtain l ls' where ls: "ls = l # ls'" and l: "lineText l" and ls': "\<forall>l \<in> set ls'. lineText l"
    by (cases ls) auto
  from first_Star_LINE[OF ls', of c] have "first (Plus LINE) (crlfLines ls, c) ([], c)"
    by (simp add: first_iff ls ms_Plus_LINE_Cons[OF l])
  from first_Grp[OF this, of i] show ?thesis by simp
qed

text \<open>
  The group of lines of the section of the pull requests, which a blank line must follow,
  takes the lines before the blank line when no other blank line follows.
\<close>

lemma first_lines_before_blank:
  assumes "ls \<noteq> []" and "\<forall>l \<in> set ls. lineText l" and "\<forall>l \<in> set as. lineText l \<and> l \<noteq> []"
  shows "first (seqs [Grp i (Plus LINE), Lit CR, Lit LF])
           (crlfLines ls @ CR # LF # crlfLines as, c) (crlfLines as, (i, crlfLines ls) # c)"
proof -
  let ?A = "crlfLines as" and ?B = "CR # LF # crlfLines as"
  let ?T = "crlfLines ls @ ?B"
  let ?K = "Seq (Lit CR) (Seq (Lit LF) Eps)"
  let ?G = "\<lambda>st'. (fst st', (i, take (length ?T - length (fst st')) ?T) # snd st')"
  from assms obtain l ls' where ls: "ls = l # ls'" and l: "lineText l" and ls': "\<forall>l \<in> set ls'. lineText l"
    by (cases ls) auto
  have B: "ms (Star LINE) (?B, c) = ms (Star LINE) (?A, c) @ [(?B, c)]"
    using ms_Star_LINE_Cons[of "[]" ?A c] by simp
  from Star_LINE_append[OF ls', of ?B c] obtain Y where
    "ms (Star LINE) (crlfLines ls' @ ?B, c) = ms (Star LINE) (?B, c) @ Y" by blast
  then have P: "ms (Plus LINE) (?T, c) = ms (Star LINE) (?A, c) @ (?B, c) # Y"
    using ms_Plus_LINE_Cons[OF l, of "crlfLines ls' @ ?B" c] by (simp add: ls B)
  have X: "ms ?K (?G x) = []" if "x \<in> set (ms (Star LINE) (?A, c))" for x
  proof -
    from Star_LINE_noBlank[OF assms(3) that] have "\<not> startsCR (fst x)" .
    then show ?thesis by (cases "fst x") (simp_all add: startsCR_def)
  qed
  then have X': "concat (map (\<lambda>x. ms ?K (?G x)) (ms (Star LINE) (?A, c))) = []"
    by simp
  have cap: "take (length ?T - length ?B) ?T = crlfLines ls"
    by simp
  have "ms (Seq (Grp i (Plus LINE)) ?K) (?T, c)
        = concat (map (\<lambda>x. ms ?K (?G x)) (ms (Plus LINE) (?T, c)))"
    by (simp add: comp_def)
  also have "\<dots> = ms ?K (?G (?B, c)) @ concat (map (\<lambda>x. ms ?K (?G x)) Y)"
    unfolding P by (simp only: map_append concat_append X' list.map concat.simps append_Nil)
  also have "ms ?K (?G (?B, c)) = [(?A, (i, crlfLines ls) # c)]"
    using cap by simp
  finally show ?thesis by (simp add: first_iff)
qed

subsection \<open>The items of a section\<close>

text \<open>
  A URL fit for a checklist: no line terminator and no blank in it, and the pattern of a
  checklist item matches the line made of an empty box and the URL from its first character.
\<close>

definition checklistURL :: "string \<Rightarrow> bool" where
  "checklistURL u =
     (lineText u \<and> CHR '' '' \<notin> set u
      \<and> String_match_anchored (''- [ ] '' @ u) checklistItemRegex \<noteq> None)"

lemma atEol_lineText: "atEol t \<Longrightarrow> lineText t \<Longrightarrow> t = []"
  by (cases t) simp_all

lemma checklistItemRegex_unfold:
  "checklistItemRegex
   = Seq (str ''- ['') (Seq (Cls '' x'') (Seq (str ''] '') (Seq (Grp 1 (ISSUE_OR_PULL_REQUEST_REGEX_source 2)) Eps)))"
  by (simp add: checklistItemRegex_def)

lemma checklistURL_url:
  assumes "checklistURL u"
  shows "\<exists>c0. first (ISSUE_OR_PULL_REQUEST_REGEX_source 2) (u, []) ([], c0)"
proof -
  let ?U = "ISSUE_OR_PULL_REQUEST_REGEX_source 2"
  from assms have "ms checklistItemRegex (''- [ ] '' @ u, []) \<noteq> []"
    by (auto simp: checklistURL_def String_match_anchored_def split: list.splits)
  then obtain st sts where "ms checklistItemRegex (''- [ ] '' @ u, []) = st # sts"
    by (cases "ms checklistItemRegex (''- [ ] '' @ u, [])") auto
  then have 0: "ms (Seq (str ''- ['') (Seq (Cls '' x'') (Seq (str ''] '') (Seq (Grp 1 ?U) Eps))))
                  (''- ['' @ CHR '' '' # ''] '' @ u, []) = st # sts"
    unfolding checklistItemRegex_unfold by simp
  have 1: "ms (Seq (Cls '' x'') (Seq (str ''] '') (Seq (Grp 1 ?U) Eps))) (CHR '' '' # ''] '' @ u, []) = st # sts"
    using 0 unfolding ms_Seq_str_append .
  have 2: "ms (Seq (str ''] '') (Seq (Grp 1 ?U) Eps)) (''] '' @ u, []) = st # sts"
    using 1 by simp
  have 3: "ms (Grp 1 ?U) (u, []) = st # sts"
    using 2 unfolding ms_Seq_str_append ms_Seq_Eps .
  from ms_Grp_first[OF 3] obtain st0 sts0 where 4: "ms ?U (u, []) = st0 # sts0" by blast
  from url_first[OF 4] have "atEol (fst st0)" by simp
  moreover from assms have "lineText (fst st0)"
    using lineText_suffix[of u st0 ?U "[]"] 4 by (simp add: checklistURL_def)
  ultimately have "fst st0 = []" by (rule atEol_lineText)
  with 4 have "first ?U (u, []) ([], snd st0)"
    by (cases st0) (simp add: first_iff)
  then show ?thesis by blast
qed

lemma first_item:
  assumes "checklistURL u" and "atEol v" and "b = CHR '' '' \<or> b = CHR ''x''"
  shows "\<exists>c0. first checklistItemRegex (''- ['' @ b # ''] '' @ u @ v, []) (v, (1, u) # c0)"
proof -
  let ?U = "ISSUE_OR_PULL_REQUEST_REGEX_source 2"
  from checklistURL_url[OF assms(1)] obtain c0 sts where u: "ms ?U (u, []) = ([], c0) # sts"
    by (auto simp: first_iff)
  from assms(1) have lt: "lineText u" by (simp add: checklistURL_def)
  have "ms ?U (u @ v, []) = map (\<lambda>st'. (fst st' @ v, snd st')) (ms ?U (u, []))"
    by (rule lineal_frame[OF lineal_url lt assms(2)])
  with u have "first ?U (u @ v, []) (v, c0)" by (simp add: first_iff)
  from first_Grp[OF this, of 1] have g: "first (Grp 1 ?U) (u @ v, []) (v, (1, u) # c0)" by simp
  have b: "first (Cls '' x'') (b # ''] '' @ u @ v, []) (''] '' @ u @ v, [])"
    using assms(3) by (auto simp: first_iff)
  have "first checklistItemRegex (''- ['' @ b # ''] '' @ u @ v, []) (v, (1, u) # c0)"
    unfolding checklistItemRegex_unfold
    by (intro first_Seq[OF first_str] first_Seq[OF b] first_Seq[OF first_str] first_Seq[OF g] first_Eps)
  then show ?thesis by blast
qed

lemma checklistLine_shape:
  "\<exists>b. (b = CHR '' '' \<or> b = CHR ''x'') \<and> checklistLine checked u = ''- ['' @ b # ''] '' @ u @ [CR, LF]"
  by (simp add: checklistLine_def)

lemma item_no_start:
  "x \<noteq> CHR ''-'' \<Longrightarrow> ms checklistItemRegex (x # s, []) = []"
  unfolding checklistItemRegex_unfold by (simp add: ms_str)

lemma rx_matches_item_Nil: "rx_matches checklistItemRegex [] = []"
proof -
  have "ms checklistItemRegex ([], []) = []"
    unfolding checklistItemRegex_unfold by (simp add: ms_str)
  then show ?thesis by (subst rx_matches.simps) simp
qed

lemma matchAll_lines:
  assumes "\<forall>u \<in> set us. checklistURL u"
  shows "matchAll_group1 (concat (map (checklistLine checked) us)) checklistItemRegex = map Some us"
  using assms
proof (induction us)
  case Nil
  then show ?case by (simp add: matchAll_group1_def rx_matches_item_Nil)
next
  case (Cons u us)
  let ?rest = "concat (map (checklistLine checked) us)"
  from Cons.prems have u: "checklistURL u" by simp
  from checklistLine_shape[of checked u] obtain b where b: "b = CHR '' '' \<or> b = CHR ''x''"
    and line: "checklistLine checked u = ''- ['' @ b # ''] '' @ u @ [CR, LF]" by blast
  let ?s = "''- ['' @ b # ''] '' @ u @ CR # LF # ?rest"
  from first_item[OF u _ b, of "CR # LF # ?rest"] obtain c0 where
    f: "first checklistItemRegex (?s, []) (CR # LF # ?rest, (1, u) # c0)" by auto
  from rx_exec_here[OF f] have ex:
    "rx_exec checklistItemRegex ?s
     = Some ([], mk_match checklistItemRegex ?s (CR # LF # ?rest, (1, u) # c0), CR # LF # ?rest)"
    by simp
  let ?m = "mk_match checklistItemRegex ?s (CR # LF # ?rest, (1, u) # c0)"
  have g: "group ?m 1 = Some u"
    by (simp only: group1_checklistItem) simp
  have ne: "fst ?m \<noteq> []"
    by (simp add: mk_match_def)
  have skip: "rx_matches checklistItemRegex ([CR, LF] @ ?rest) = rx_matches checklistItemRegex ?rest"
    by (rule rx_matches_shift, rule rx_exec_skip_chars) (auto intro: item_no_start)
  have "rx_matches checklistItemRegex ?s = ?m # rx_matches checklistItemRegex ?rest"
    by (subst rx_matches.simps) (use ex ne skip in simp)
  moreover have "concat (map (checklistLine checked) (u # us)) = ?s"
    by (simp add: line)
  ultimately show ?case
    using g Cons.IH Cons.prems by (simp add: matchAll_group1_def)
qed

subsection \<open>The version and the comparison URL\<close>

lemma skips_append_Cons:
  "skips a b (P @ [x]) \<Longrightarrow> skips a b (x # Q) \<Longrightarrow> skips a b (P @ x # Q)"
proof (induction a b P rule: skips.induct)
  case (1 a b)
  then show ?case by simp
next
  case (2 a b y)
  then show ?case by simp
next
  case (3 a b y z s)
  then show ?case by simp
qed

lemma String_match_g_first:
  assumes "rx_exec r s = Some (pre, m, rest)"
  shows "\<exists>others. String_match_g s r = Some (fst m, others)"
  by (subst String_match_g_def, subst rx_matches.simps) (simp add: assms)

lemma fst_mk_match_append: "fst (mk_match r (u @ s) (s, c)) = u"
  by (simp add: mk_match_def)

lemma versionString_chars:
  assumes "versionDigits d1 d2 d3 d4" and "x \<in> set (versionString d1 d2 d3 d4)"
  shows "isDigit x \<or> x = CHR ''.'' \<or> x = CHR ''-''"
  using assms
  by (cases d4) (auto simp: versionDigits_def versionString_def digitText_def list_all_iff)

lemma versionString_Cons:
  assumes "versionDigits d1 d2 d3 d4"
  shows "\<exists>x t. versionString d1 d2 d3 d4 = x # t \<and> isDigit x"
proof -
  from assms obtain x d1' where "d1 = x # d1'" "isDigit x"
    by (cases d1) (auto simp: versionDigits_def digitText_def)
  then show ?thesis by (simp add: versionString_def)
qed

lemma version_no_start:
  "\<not> isDigit x \<Longrightarrow> ms (versionRegex_source g) (x # s, c) = []"
  by (simp add: versionRegex_source_def Plus_def digit_def isDigit_def)

lemma versionEnd_CR [simp]: "versionEnd (CR # s)"
  by (simp add: versionEnd_def isDigit_def)

lemma versionEnd_dot [simp]: "versionEnd (CHR ''.'' # s)"
  by (simp add: versionEnd_def isDigit_def)

text \<open>The first version in a text without digits before it.\<close>

lemma exec_version:
  assumes "versionDigits d1 d2 d3 d4" and "versionEnd s" and "\<forall>x \<in> set P. \<not> isDigit x"
  shows "\<exists>m. rx_exec versionRegex (P @ versionString d1 d2 d3 d4 @ s) = Some (P, m, s)
             \<and> fst m = versionString d1 d2 d3 d4"
proof -
  let ?v = "versionString d1 d2 d3 d4"
  from first_version[OF assms(1,2), of 1 "[]"] obtain c' where
    "first versionRegex (?v @ s, []) (s, c')" by (auto simp: versionRegex_def)
  from rx_exec_here[OF this] have here:
    "rx_exec versionRegex (?v @ s) = Some ([], mk_match versionRegex (?v @ s) (s, c'), s)" by simp
  have "rx_exec versionRegex (P @ ?v @ s) = shift P (rx_exec versionRegex (?v @ s))"
    by (rule rx_exec_skip_chars) (use assms(3) in \<open>simp add: versionRegex_def version_no_start\<close>)
  with here show ?thesis by (simp add: fst_mk_match_append)
qed

lemma first_spliced: "lineText w \<Longrightarrow> first (spliced w) (w @ s, c) (s, c)"
proof (induction w)
  case Nil
  then show ?case by (simp add: first_iff)
next
  case (Cons x w)
  then have "first (if x = CHR ''.'' then Dot else Lit x) (x # w @ s, c) (w @ s, c)"
    by (simp add: first_iff isLineTerminator_def)
  with Cons show ?case by (auto intro: first_Seq)
qed

lemma lineText_URL: "lineText EXPENSIFY_CASH_URL"
  by (simp add: EXPENSIFY_CASH_URL_def isLineTerminator_def)

lemma first_compare:
  assumes "versionDigits p1 p2 p3 p4" and "versionDigits c1 c2 c3 c4" and "versionEnd s"
  shows "\<exists>c'. first compareURLRegex
           (getComparisonURL (versionString p1 p2 p3 p4) (versionString c1 c2 c3 c4) @ s, []) (s, c')"
proof -
  let ?p = "versionString p1 p2 p3 p4" and ?c = "versionString c1 c2 c3 c4"
  have 2: "\<exists>k2. first (versionRegex_source 5) (?c @ s, k) (s, k2)" for k
    using first_version[OF assms(2,3)] by blast
  have 1: "\<exists>k1. first (versionRegex_source 1) (?p @ ''...'' @ ?c @ s, k) (''...'' @ ?c @ s, k1)" for k
    using first_version[OF assms(1), of "''...'' @ ?c @ s" 1 k] by simp
  from 1[of "[]"] obtain k1 where
    a: "first (versionRegex_source 1) (?p @ ''...'' @ ?c @ s, []) (''...'' @ ?c @ s, k1)" by blast
  from 2[of k1] obtain k2 where b: "first (versionRegex_source 5) (?c @ s, k1) (s, k2)" by blast
  have "first compareURLRegex (EXPENSIFY_CASH_URL @ ''/compare/'' @ ?p @ ''...'' @ ?c @ s, []) (s, k2)"
    unfolding compareURLRegex_def
    by (intro first_seqs_Cons[OF first_spliced[OF lineText_URL]] first_seqs_Cons[OF first_str]
          first_seqs_Cons[OF a] first_seqs_Cons[OF first_str] first_seqs_Cons[OF b] first_seqs_Nil)
  then show ?thesis by (auto simp: getComparisonURL_def)
qed

lemma compare_forces:
  assumes "ms compareURLRegex (t, c) \<noteq> []"
  shows "Suc 0 < length t \<and> t ! 0 = CHR ''h'' \<and> t ! Suc 0 = CHR ''t''"
proof -
  obtain R R' where r: "compareURLRegex = Seq (Seq (Lit CHR ''h'') (Seq (Lit CHR ''t'') R)) R'"
    by (simp add: compareURLRegex_def EXPENSIFY_CASH_URL_def)
  show ?thesis
  proof (cases t)
    case Nil
    with assms show ?thesis unfolding r by simp
  next
    case (Cons x t')
    with assms show ?thesis unfolding r by (cases t') (auto split: if_splits)
  qed
qed

subsection \<open>The two sections\<close>

lemma group1_single:
  assumes "ngroups r = Suc 0"
  shows "group (mk_match r s (s', (Suc 0, t) # c)) (Suc 0) = Some t"
  by (simp add: group_def mk_match_def assms)

lemma ngroups_str [simp]: "ngroups (str w) = 0"
  by (induction w) (simp_all add: str.simps)

lemma PRListSectionRegex_unfold:
  "PRListSectionRegex
   = Seq (str ''pull requests:**'') (Seq (Lit CR) (Seq (Lit LF) (seqs [Grp 1 (Plus LINE), Lit CR, Lit LF])))"
  by (simp add: PRListSectionRegex_def LINE_def)

lemma deployBlockerSectionRegex_unfold:
  "deployBlockerSectionRegex
   = Seq (str ''Deploy Blockers:**'') (Seq (Lit CR) (Seq (Lit LF) (Seq (Grp 1 (Plus LINE)) Eps)))"
  by (simp add: deployBlockerSectionRegex_def LINE_def)

lemma PR_section_forces:
  assumes "ms PRListSectionRegex (t, c) \<noteq> []"
  shows "Suc 0 < length t \<and> t ! 0 = CHR ''p'' \<and> t ! Suc 0 = CHR ''u''"
  using str_forces[OF assms[unfolded PRListSectionRegex_unfold], of 0]
    str_forces[OF assms[unfolded PRListSectionRegex_unfold], of "Suc 0"]
  by simp

lemma blocker_section_forces:
  assumes "ms deployBlockerSectionRegex (t, c) \<noteq> []"
  shows "Suc 6 < length t \<and> t ! 6 = CHR '' '' \<and> t ! Suc 6 = CHR ''B''"
  using str_forces[OF assms[unfolded deployBlockerSectionRegex_unfold], of 6]
    str_forces[OF assms[unfolded deployBlockerSectionRegex_unfold], of "Suc 6"]
  by simp

text \<open>The section of the pull requests, found after a text that holds no \<^verbatim>\<open>pu\<close>.\<close>

lemma match_PR_section:
  assumes "skips CHR ''p'' CHR ''u'' Q"
    and "ls \<noteq> []" and "\<forall>l \<in> set ls. lineText l" and "\<forall>l \<in> set as. lineText l \<and> l \<noteq> []"
  shows "\<exists>m. String_match (Q @ ''pull requests:**'' @ CR # LF # crlfLines ls @ CR # LF # crlfLines as)
               PRListSectionRegex = Some m
             \<and> group m 1 = Some (crlfLines ls)"
proof -
  let ?s = "''pull requests:**'' @ CR # LF # crlfLines ls @ CR # LF # crlfLines as"
  have f: "first PRListSectionRegex (?s, []) (crlfLines as, [(1, crlfLines ls)])"
    unfolding PRListSectionRegex_unfold
    by (intro first_Seq[OF first_str] first_Seq[OF first_Lit] first_Seq[OF first_Lit]
          first_lines_before_blank assms)
  have "rx_exec PRListSectionRegex (Q @ ?s) = shift Q (rx_exec PRListSectionRegex ?s)"
    by (rule rx_exec_skip_pair[where k = 0 and a = "CHR ''p''" and b = "CHR ''u''"])
       (use assms(1) PR_section_forces in simp_all)
  with rx_exec_here[OF f] have
    "String_match (Q @ ?s) PRListSectionRegex
     = Some (mk_match PRListSectionRegex ?s (crlfLines as, [(1, crlfLines ls)]))"
    by (simp add: String_match_def)
  moreover have "ngroups PRListSectionRegex = 1"
    by (simp add: PRListSectionRegex_unfold LINE_def Plus_def)
  ultimately show ?thesis by (simp add: group1_single)
qed

text \<open>The section of the deploy blockers, found after a text where no blank precedes a \<^verbatim>\<open>B\<close>.\<close>

lemma match_blocker_section:
  assumes "skips CHR '' '' CHR ''B'' (Q @ ''Deploy'')"
    and "ls \<noteq> []" and "\<forall>l \<in> set ls. lineText l"
  shows "\<exists>m. String_match (Q @ ''Deploy Blockers:**'' @ CR # LF # crlfLines ls)
               deployBlockerSectionRegex = Some m
             \<and> group m 1 = Some (crlfLines ls)"
proof -
  let ?s = "''Deploy Blockers:**'' @ CR # LF # crlfLines ls"
  have f: "first deployBlockerSectionRegex (?s, []) ([], [(1, crlfLines ls)])"
    unfolding deployBlockerSectionRegex_unfold
    by (intro first_Seq[OF first_str] first_Seq[OF first_Lit] first_Seq[OF first_Lit]
          first_Seq[OF first_all_lines] first_Eps assms)
  have "rx_exec deployBlockerSectionRegex (Q @ ?s) = shift Q (rx_exec deployBlockerSectionRegex ?s)"
    by (rule rx_exec_skip_pair[where k = 6 and a = "CHR '' ''" and b = "CHR ''B''"])
       (use assms(1) blocker_section_forces in simp_all)
  with rx_exec_here[OF f] have
    "String_match (Q @ ?s) deployBlockerSectionRegex
     = Some (mk_match deployBlockerSectionRegex ?s ([], [(1, crlfLines ls)]))"
    by (simp add: String_match_def)
  moreover have "ngroups deployBlockerSectionRegex = 1"
    by (simp add: deployBlockerSectionRegex_unfold LINE_def Plus_def)
  ultimately show ?thesis by (simp add: group1_single)
qed

subsection \<open>Decoding a composed body\<close>

text \<open>The line of a checklist item without the two characters that end it.\<close>

definition itemText :: "string list \<Rightarrow> string \<Rightarrow> string" where
  "itemText checked u = (if u \<in> set checked then ''- [x]'' else ''- [ ]'') @ '' '' @ u"

lemma lines_items:
  "concat (map (checklistLine checked) us) = crlfLines (map (itemText checked) us)"
  by (induction us) (simp_all add: checklistLine_def itemText_def)

lemma itemText_line: "lineText u \<Longrightarrow> lineText (itemText checked u) \<and> itemText checked u \<noteq> []"
  by (simp add: itemText_def isLineTerminator_def)

lemma checklistURL_http:
  assumes "checklistURL u"
  shows "\<exists>w. u = ''http'' @ w"
proof -
  from checklistURL_url[OF assms] obtain c0 sts where
    "ms (ISSUE_OR_PULL_REQUEST_REGEX_source 2) (u, []) = ([], c0) # sts"
    by (auto simp: first_iff)
  from url_first[OF this] show ?thesis by auto
qed

lemma skips_Cons_other: "x \<noteq> a \<Longrightarrow> skips a b t \<Longrightarrow> skips a b (x # t)"
  by (cases t) simp_all

lemma skips_items:
  assumes "\<forall>u \<in> set us. checklistURL u"
  shows "skips CHR '' '' CHR ''B'' (crlfLines (map (itemText checked) us))"
  using assms
proof (induction us)
  case Nil
  then show ?case by simp
next
  case (Cons u us)
  then have u: "checklistURL u" and IH: "skips CHR '' '' CHR ''B'' (crlfLines (map (itemText checked) us))"
    by simp_all
  from checklistURL_http[OF u] obtain w where w: "u = ''http'' @ w" by blast
  with u have "\<forall>x \<in> set w. x \<noteq> CHR '' ''" by (auto simp: checklistURL_def)
  then have 1: "skips CHR '' '' CHR ''B'' w" by (rule skips_all)
  have 2: "skips CHR '' '' CHR ''B'' (CR # LF # crlfLines (map (itemText checked) us))"
    by (intro skips_Cons_other IH) simp_all
  define X where "X = (if u \<in> set checked then ''- [x]'' else ''- [ ]'') @ '' http''"
  have 3: "skips CHR '' '' CHR ''B'' X"
    by (simp add: X_def)
  have eq: "itemText checked u = X @ w"
    unfolding itemText_def X_def using w by simp
  have "skips CHR '' '' CHR ''B''
          (itemText checked u @ CR # LF # crlfLines (map (itemText checked) us))"
    unfolding eq append_assoc by (intro skips_append 1 2 3)
  then show ?case by (simp only: list.map crlfLines_simps)
qed

lemma version_skips:
  assumes "versionDigits d1 d2 d3 d4" and "\<not> isDigit a" and "a \<noteq> CHR ''.''" and "a \<noteq> CHR ''-''"
  shows "skips a b (versionString d1 d2 d3 d4)"
proof (rule skips_all, rule ballI)
  fix x assume "x \<in> set (versionString d1 d2 d3 d4)"
  from versionString_chars[OF assms(1) this] assms(2-4) show "x \<noteq> a" by auto
qed

lemma version_no_backtick:
  assumes "versionDigits d1 d2 d3 d4"
  shows "filter (\<lambda>ch. ch \<noteq> CHR 0x60) (versionString d1 d2 d3 d4) = versionString d1 d2 d3 d4"
proof -
  have "x \<noteq> CHR 0x60" if "x \<in> set (versionString d1 d2 d3 d4)" for x
    using versionString_chars[OF assms that] by (auto simp: isDigit_def)
  then show ?thesis by (simp add: filter_id_conv)
qed

text \<open>The body of a checklist with both sections, and what decoding finds in it.\<close>

lemma decode_composed:
  fixes t1 t2 t3 t4 p1 p2 p3 p4 c1 c2 c3 c4 prs dbs verified resolved
  defines "tagText \<equiv> versionString t1 t2 t3 t4"
    and "comparison \<equiv> getComparisonURL (versionString p1 p2 p3 p4) (versionString c1 c2 c3 c4)"
  defines "body \<equiv> ''**Release Version:** '' @ tagText @ [CR, LF]
             @ ''**Compare Changes:** '' @ comparison @ [CR, LF]
             @ ''**This release contains changes from the following pull requests:**'' @ [CR, LF]
             @ concat (map (checklistLine verified) prs)
             @ [CR, LF] @ ''**Deploy Blockers:**'' @ [CR, LF]
             @ concat (map (checklistLine resolved) dbs)"
  assumes digits: "versionDigits t1 t2 t3 t4" "versionDigits p1 p2 p3 p4" "versionDigits c1 c2 c3 c4"
    and nonempty: "prs \<noteq> []" "dbs \<noteq> []"
    and urls: "\<forall>u \<in> set prs. checklistURL u" "\<forall>u \<in> set dbs. checklistURL u"
  shows "getStagingDeployCashData
           \<lparr> issue_title = title0, issue_url = url0, issue_labels = labels0, issue_body = Some body \<rparr>
         = Inr \<lparr> title = title0, url = url0, labels = labels0, tag = tagText,
                 comparisonURL = comparison, PRList = map Some prs, deployBlockers = map Some dbs \<rparr>"
proof -
  let ?P = "crlfLines (map (itemText verified) prs)"
  let ?D = "crlfLines (map (itemText resolved) dbs)"
  let ?pv = "versionString p1 p2 p3 p4" and ?cv = "versionString c1 c2 c3 c4"
  have body: "body = ''**Release Version:** '' @ tagText @ [CR, LF]
             @ ''**Compare Changes:** '' @ comparison @ [CR, LF]
             @ ''**This release contains changes from the following pull requests:**'' @ [CR, LF]
             @ ?P @ [CR, LF] @ ''**Deploy Blockers:**'' @ [CR, LF] @ ?D"
    by (simp add: body_def lines_items)
  have h: "\<not> isDigit CHR ''h''" "\<not> isDigit CHR ''p''" "\<not> isDigit CHR '' ''"
    by (simp_all add: isDigit_def)
  note vs = version_skips[OF digits(1)] version_skips[OF digits(2)] version_skips[OF digits(3)]
  \<comment> \<open>the version\<close>
  from exec_version[OF digits(1), of "CR # LF # ''**Compare Changes:** '' @ comparison @ [CR, LF]
             @ ''**This release contains changes from the following pull requests:**'' @ [CR, LF]
             @ ?P @ [CR, LF] @ ''**Deploy Blockers:**'' @ [CR, LF] @ ?D" "''**Release Version:** ''"]
  obtain m1 where "rx_exec versionRegex body = Some (''**Release Version:** '', m1,
             CR # LF # ''**Compare Changes:** '' @ comparison @ [CR, LF]
             @ ''**This release contains changes from the following pull requests:**'' @ [CR, LF]
             @ ?P @ [CR, LF] @ ''**Deploy Blockers:**'' @ [CR, LF] @ ?D)" and "fst m1 = tagText"
    by (auto simp: body tagText_def isDigit_def)
  from String_match_g_first[OF this(1)] this(2) obtain versions where
    version: "String_match_g body versionRegex = Some (tagText, versions)" by auto
  \<comment> \<open>the comparison URL\<close>
  let ?Q2 = "''**Release Version:** '' @ tagText @ [CR, LF] @ ''**Compare Changes:** ''"
  let ?s2 = "CR # LF # ''**This release contains changes from the following pull requests:**'' @ [CR, LF]
             @ ?P @ [CR, LF] @ ''**Deploy Blockers:**'' @ [CR, LF] @ ?D"
  have "skips CHR ''h'' CHR ''t'' ?Q2"
    unfolding tagText_def by (intro skips_append vs h) simp_all
  then have "rx_exec compareURLRegex (?Q2 @ comparison @ ?s2)
             = shift ?Q2 (rx_exec compareURLRegex (comparison @ ?s2))"
    by (intro rx_exec_skip_pair[where k = 0 and a = "CHR ''h''" and b = "CHR ''t''"])
       (use compare_forces in simp_all)
  moreover from first_compare[OF digits(2,3), of ?s2] obtain k where
    "first compareURLRegex (comparison @ ?s2, []) (?s2, k)" by (auto simp: comparison_def)
  note rx_exec_here[OF this]
  ultimately have "rx_exec compareURLRegex body
                   = Some (?Q2, mk_match compareURLRegex (comparison @ ?s2) (?s2, k), ?s2)"
    by (simp add: body)
  from String_match_g_first[OF this] obtain comparisons where
    compare: "String_match_g body compareURLRegex = Some (comparison, comparisons)"
    by (auto simp: fst_mk_match_append)
  \<comment> \<open>the section of the pull requests\<close>
  have Pl: "map (itemText verified) prs \<noteq> []" "\<forall>l \<in> set (map (itemText verified) prs). lineText l"
    using nonempty(1) urls(1) by (auto simp: checklistURL_def dest: itemText_line)
  have Dl: "map (itemText resolved) dbs \<noteq> []" "\<forall>l \<in> set (map (itemText resolved) dbs). lineText l"
    using nonempty(2) urls(2) by (auto simp: checklistURL_def dest: itemText_line)
  have Al: "\<forall>l \<in> set (''**Deploy Blockers:**'' # map (itemText resolved) dbs). lineText l \<and> l \<noteq> []"
    using urls(2) by (auto simp: checklistURL_def isLineTerminator_def dest: itemText_line)
  let ?Q3 = "''**Release Version:** '' @ tagText
             @ ([CR, LF] @ ''**Compare Changes:** '' @ EXPENSIFY_CASH_URL @ ''/compare/'') @ ?pv
             @ ''...'' @ ?cv @ ([CR, LF] @ ''**This release contains changes from the following '')"
  have "skips CHR ''p'' CHR ''u'' ?Q3"
    unfolding tagText_def by (intro skips_append vs h) (simp_all add: EXPENSIFY_CASH_URL_def)
  from match_PR_section[OF this Pl Al] obtain sectionMatch where
    prSection: "String_match body PRListSectionRegex = Some sectionMatch"
    "group sectionMatch 1 = Some ?P"
    by (auto simp: body comparison_def getComparisonURL_def)
  \<comment> \<open>the section of the deploy blockers\<close>
  from versionString_Cons[OF digits(1)] obtain x t' where tg: "tagText = x # t'" and x: "isDigit x"
    by (auto simp: tagText_def)
  define A where "A = [CR, LF] @ ''**Compare Changes:** '' @ EXPENSIFY_CASH_URL @ ''/compare/''"
  have A: "skips CHR '' '' CHR ''B'' A"
    by (simp add: A_def EXPENSIFY_CASH_URL_def)
  let ?R4 = "A @ ?pv @ ''...'' @ ?cv
             @ ([CR, LF] @ ''**This release contains changes from the following pull requests:**''
                @ [CR, LF]) @ ?P @ ([CR, LF] @ ''**'')"
  have r4: "skips CHR '' '' CHR ''B'' (tagText @ ?R4 @ ''Deploy'')"
    unfolding tagText_def
    by (intro skips_append vs h skips_items urls A) simp_all
  have "skips CHR '' '' CHR ''B'' (''**Release Version:** '' @ [x])"
    using x by (auto simp: isDigit_def)
  from skips_append_Cons[OF this r4[unfolded tg append_Cons]] have
    "skips CHR '' '' CHR ''B'' ((''**Release Version:** '' @ tagText @ ?R4) @ ''Deploy'')"
    by (simp add: tg)
  from match_blocker_section[OF this Dl] obtain blockerMatch where
    dbSection: "String_match body deployBlockerSectionRegex = Some blockerMatch"
    "group blockerMatch 1 = Some ?D"
    by (auto simp: body comparison_def getComparisonURL_def A_def)
  \<comment> \<open>the items\<close>
  have items: "matchAll_group1 ?P checklistItemRegex = map Some prs"
    "matchAll_group1 ?D checklistItemRegex = map Some dbs"
    using matchAll_lines[OF urls(1), of verified] matchAll_lines[OF urls(2), of resolved]
    by (simp_all add: lines_items)
  have tag: "filter (\<lambda>ch. ch \<noteq> CHR 0x60) tagText = tagText"
    unfolding tagText_def by (rule version_no_backtick[OF digits(1)])
  show ?thesis
    unfolding getStagingDeployCashData_def getStagingDeployCashData_try_def
    by (simp add: version compare prSection[unfolded One_nat_def] dbSection[unfolded One_nat_def]
        items tag)
qed

subsection \<open>Encoding, then decoding\<close>

text \<open>
  A checklist with both lists is decoded to what was encoded. Let the tag and the two
  versions of the comparison URL be texts of the form \<^verbatim>\<open>digits.digits.digits\<close> or
  \<^verbatim>\<open>digits.digits.digits-digits\<close>, let neither list be empty, and let every URL given hold no
  blank and no line terminator and be matched from its first character by the pattern of a
  checklist item (conditions that are enough, some of them more than is needed). When
  \<^verbatim>\<open>generateStagingDeployCashBody\<close> produces a body, \<^verbatim>\<open>getStagingDeployCashData\<close> decodes an
  issue with that body to the title, URL and labels of the issue, the tag and the
  comparison URL that were encoded, and the two lists as the encoder wrote them, without
  duplicates and sorted. The states of the boxes are not decoded.
\<close>

theorem round_trip_of_plain_checklists:
  assumes encoded: "generateStagingDeployCashBody listTags tag0 PRList0 verifiedPRList deployBlockers0
             resolvedDeployBlockers = (Resolved (Some issueBody), out)"
    and compared: "generateVersionComparisonURL listTags (GITHUB_OWNER @ ''/'' @ EXPENSIFY_CASH_REPO)
             tag0 ''BUILD''
           = Resolved (getComparisonURL (versionString p1 p2 p3 p4) (versionString c1 c2 c3 c4))"
    and tag: "tag0 = versionString t1 t2 t3 t4"
    and digits: "versionDigits t1 t2 t3 t4" "versionDigits p1 p2 p3 p4" "versionDigits c1 c2 c3 c4"
    and nonempty: "PRList0 \<noteq> []" "deployBlockers0 \<noteq> []"
    and urls: "\<forall>u \<in> set (PRList0 @ deployBlockers0). checklistURL u"
  shows "\<exists>sortedPRList sortedDeployBlockers.
           sortBy (unique PRList0) getPullRequestNumberFromURL = Inr sortedPRList
         \<and> sortBy (unique deployBlockers0) getIssueOrPullRequestNumberFromURL
             = Inr sortedDeployBlockers
         \<and> getStagingDeployCashData
               \<lparr> issue_title = title0, issue_url = url0, issue_labels = labels0,
                 issue_body = Some issueBody \<rparr>
             = Inr \<lparr> title = title0, url = url0, labels = labels0, tag = tag0,
                     comparisonURL = getComparisonURL (versionString p1 p2 p3 p4)
                                       (versionString c1 c2 c3 c4),
                     PRList = map Some sortedPRList,
                     deployBlockers = map Some sortedDeployBlockers \<rparr>"
proof -
  from encoded compared have
    "composeBody tag0 PRList0 verifiedPRList deployBlockers0 resolvedDeployBlockers
       (getComparisonURL (versionString p1 p2 p3 p4) (versionString c1 c2 c3 c4))
     = Inr issueBody"
    by (auto simp: generateStagingDeployCashBody_def split: promise.splits sum.splits)
  from composeBody_Inr[OF this] nonempty obtain prs dbs where
    prs: "sortBy (unique PRList0) getPullRequestNumberFromURL = Inr prs"
    and dbs: "sortBy (unique deployBlockers0) getIssueOrPullRequestNumberFromURL = Inr dbs"
    and body: "issueBody =
             ''**Release Version:** '' @ tag0 @ [CR, LF]
             @ ''**Compare Changes:** ''
             @ getComparisonURL (versionString p1 p2 p3 p4) (versionString c1 c2 c3 c4) @ [CR, LF]
             @ ''**This release contains changes from the following pull requests:**'' @ [CR, LF]
             @ concat (map (checklistLine verifiedPRList) prs)
             @ [CR, LF] @ ''**Deploy Blockers:**'' @ [CR, LF]
             @ concat (map (checklistLine resolvedDeployBlockers) dbs)"
    by auto
  from sortBy_Inr[OF prs] have p: "set prs = set PRList0" by (simp add: set_unique)
  from sortBy_Inr[OF dbs] have d: "set dbs = set deployBlockers0" by (simp add: set_unique)
  from p nonempty(1) have pn: "prs \<noteq> []" by auto
  from d nonempty(2) have dn: "dbs \<noteq> []" by auto
  from p urls have pu: "\<forall>u \<in> set prs. checklistURL u" by simp
  from d urls have du: "\<forall>u \<in> set dbs. checklistURL u" by simp
  from decode_composed[OF digits pn dn pu du, of title0 url0 labels0 verifiedPRList
      resolvedDeployBlockers]
  have "getStagingDeployCashData
               \<lparr> issue_title = title0, issue_url = url0, issue_labels = labels0,
                 issue_body = Some issueBody \<rparr>
             = Inr \<lparr> title = title0, url = url0, labels = labels0, tag = tag0,
                     comparisonURL = getComparisonURL (versionString p1 p2 p3 p4)
                                       (versionString c1 c2 c3 c4),
                     PRList = map Some prs,
                     deployBlockers = map Some dbs \<rparr>"
    unfolding body tag .
  with prs dbs show ?thesis by blast
qed

text \<open>
  The round trip of a checklist whose lists are given in ascending order, without
  duplicates: the decoded lists are the lists given.
\<close>

theorem round_trip_of_plain_checklists_example:
  "generateStagingDeployCashBody (\<lambda>repoOwner repoName. Inr [''1.0.1-401'', ''1.0.1-400''])
       ''1.0.1-401''
       [''https://github.com/Expensify/Expensify.cash/pull/21'',
        ''https://github.com/Expensify/Expensify.cash/pull/22'']
       [''https://github.com/Expensify/Expensify.cash/pull/22'']
       [''https://github.com/Expensify/Expensify.cash/pull/3'',
        ''https://github.com/Expensify/Expensify.cash/issues/7'']
       []
     = (Resolved (Some body_with_blockers), [])
   \<and> getStagingDeployCashData
       \<lparr> issue_title = ''Deploy Checklist'', issue_url = ''https://api.github.com/issues/1'',
         issue_labels = [STAGING_DEPLOY_CASH_LABEL], issue_body = Some body_with_blockers \<rparr>
     = Inr \<lparr> title = ''Deploy Checklist'', url = ''https://api.github.com/issues/1'',
             labels = [STAGING_DEPLOY_CASH_LABEL], tag = ''1.0.1-401'',
             comparisonURL = ''https://github.com/Expensify/Expensify.cash/compare/1.0.1-400...1.0.1-401'',
             PRList = map Some [''https://github.com/Expensify/Expensify.cash/pull/21'',
                                ''https://github.com/Expensify/Expensify.cash/pull/22''],
             deployBlockers = map Some [''https://github.com/Expensify/Expensify.cash/pull/3'',
                                        ''https://github.com/Expensify/Expensify.cash/issues/7''] \<rparr>"
proof -
  let ?listTags = "\<lambda>repoOwner repoName. Inr [''1.0.1-401'', ''1.0.1-400'']
                     :: js_error + string list"
  let ?prs = "[''https://github.com/Expensify/Expensify.cash/pull/21'',
               ''https://github.com/Expensify/Expensify.cash/pull/22'']"
  let ?dbs = "[''https://github.com/Expensify/Expensify.cash/pull/3'',
               ''https://github.com/Expensify/Expensify.cash/issues/7'']"
  have encoded:
    "generateStagingDeployCashBody ?listTags ''1.0.1-401'' ?prs
       [''https://github.com/Expensify/Expensify.cash/pull/22''] ?dbs []
     = (Resolved (Some body_with_blockers), [])"
    by code_simp
  have compared:
    "generateVersionComparisonURL ?listTags (GITHUB_OWNER @ ''/'' @ EXPENSIFY_CASH_REPO)
       ''1.0.1-401'' ''BUILD''
     = Resolved (getComparisonURL (versionString ''1'' ''0'' ''1'' (Some ''400''))
                   (versionString ''1'' ''0'' ''1'' (Some ''401'')))"
    by code_simp
  have tag: "''1.0.1-401'' = versionString ''1'' ''0'' ''1'' (Some ''401'')"
    by (simp add: versionString_def)
  have digits: "versionDigits ''1'' ''0'' ''1'' (Some ''401'')"
    "versionDigits ''1'' ''0'' ''1'' (Some ''400'')"
    by code_simp+
  have nonempty: "?prs \<noteq> []" "?dbs \<noteq> []" by simp_all
  have urls: "\<forall>u \<in> set (?prs @ ?dbs). checklistURL u"
    by code_simp
  have sortedLists: "sortBy (unique ?prs) getPullRequestNumberFromURL = Inr ?prs"
    "sortBy (unique ?dbs) getIssueOrPullRequestNumberFromURL = Inr ?dbs"
    by code_simp+
  have comparison: "getComparisonURL (versionString ''1'' ''0'' ''1'' (Some ''400''))
                      (versionString ''1'' ''0'' ''1'' (Some ''401''))
                    = ''https://github.com/Expensify/Expensify.cash/compare/1.0.1-400...1.0.1-401''"
    by code_simp
  from round_trip_of_plain_checklists[OF encoded compared tag digits(1,2,1) nonempty urls,
      of "''Deploy Checklist''" "''https://api.github.com/issues/1''" "[STAGING_DEPLOY_CASH_LABEL]"]
  have "getStagingDeployCashData
       \<lparr> issue_title = ''Deploy Checklist'', issue_url = ''https://api.github.com/issues/1'',
         issue_labels = [STAGING_DEPLOY_CASH_LABEL], issue_body = Some body_with_blockers \<rparr>
     = Inr \<lparr> title = ''Deploy Checklist'', url = ''https://api.github.com/issues/1'',
             labels = [STAGING_DEPLOY_CASH_LABEL], tag = ''1.0.1-401'',
             comparisonURL = ''https://github.com/Expensify/Expensify.cash/compare/1.0.1-400...1.0.1-401'',
             PRList = map Some ?prs, deployBlockers = map Some ?dbs \<rparr>"
    unfolding sortedLists comparison by blast
  with encoded show ?thesis by (rule conjI)
qed

text \<open>
  Claim C4. Decoding a body that \<^verbatim>\<open>generateStagingDeployCashBody\<close> produced gives the tag,
  the comparison URL and the two lists that were encoded, the states of the boxes apart.
  The code departs from this where no deploy blocker is given, which is the default of the
  encoder and the call of \<^verbatim>\<open>createNewStagingDeployCash\<close>: the encoder then writes neither the
  blank line that ends the section of the pull requests nor the section of the deploy
  blockers, the decoder finds neither section in the body, and decoding throws.
\<close>

theorem default_checklist_is_not_decoded:
  "generateStagingDeployCashBody (\<lambda>repoOwner repoName. Inr [''1.0.1-401'', ''1.0.1-400''])
       ''1.0.1-401'' [''https://github.com/Expensify/Expensify.cash/pull/21''] [] [] []
     = (Resolved (Some body_without_blockers), [])
   \<and> String_match body_without_blockers PRListSectionRegex = None
   \<and> String_match body_without_blockers deployBlockerSectionRegex = None
   \<and> getStagingDeployCashData
       \<lparr> issue_title = ''Deploy Checklist'', issue_url = ''https://api.github.com/issues/1'',
         issue_labels = [STAGING_DEPLOY_CASH_LABEL], issue_body = Some body_without_blockers \<rparr>
     = Inl MalformedChecklist"
  by code_simp

end
